theory Spec2Isabelle
  imports Complex_Main "HOL-Library.AList" "HOL-Library.Dlist"
begin

section \<open>Python values used by \<^verbatim>\<open>LM_models.py\<close>\<close>

text \<open>
  Phoneme symbols are strings. A Python \<^verbatim>\<open>dict\<close> (and its subclasses \<^verbatim>\<open>Counter\<close> and
  \<^verbatim>\<open>defaultdict\<close>) is an association list in insertion order with distinct keys; a Python
  \<^verbatim>\<open>set\<close> is a duplicate-free list (a \<open>dlist\<close>), the order being the order of
  iteration: Python fixes no such order, and no statement below depends on it. Python's
  integers that count things are naturals; Python's floats are modelled as real numbers,
  so all arithmetic below is exact and no rounding of binary64 is represented.
  Exceptions are values of type \<open>error\<close>, on the left of a sum; what the source prints is
  not modelled.
\<close>

datatype error = ZeroDivisionError | KeyError | ValueError | AssertionError

type_synonym symbol = string
type_synonym ('k, 'v) dict = "('k \<times> 'v) list"
type_synonym pyset = "symbol dlist"

text \<open>Set objects live in a store: the model object and its caller hold a reference.\<close>

type_synonym ref = nat
type_synonym store = "ref \<Rightarrow> pyset"

definition andThen :: "error + 'a \<Rightarrow> ('a \<Rightarrow> error + 'b) \<Rightarrow> error + 'b" where
  "andThen r f = (case r of Inl e \<Rightarrow> Inl e | Inr v \<Rightarrow> f v)"

definition contains :: "('k, 'v) dict \<Rightarrow> 'k \<Rightarrow> bool" where
  \<comment> \<open>\<^verbatim>\<open>k in D\<close>\<close>
  "contains D k = (map_of D k \<noteq> None)"

definition Counter_get :: "('k, nat) dict \<Rightarrow> 'k \<Rightarrow> nat" where
  \<comment> \<open>\<^verbatim>\<open>C[k]\<close> on a Counter: a missing key reads as 0\<close>
  "Counter_get C k = (case map_of C k of None \<Rightarrow> 0 | Some n \<Rightarrow> n)"

fun Counter_update :: "('k, nat) dict \<Rightarrow> 'k list \<Rightarrow> ('k, nat) dict" where
  "Counter_update C [] = C"
| "Counter_update C (x # xs) = Counter_update (AList.update x (Counter_get C x + 1) C) xs"

definition Counter :: "'k list \<Rightarrow> ('k, nat) dict" where
  \<comment> \<open>\<^verbatim>\<open>Counter(iterable)\<close>\<close>
  "Counter xs = Counter_update [] xs"

definition py_div :: "real \<Rightarrow> real \<Rightarrow> error + real" where
  \<comment> \<open>true division \<^verbatim>\<open>a / b\<close>\<close>
  "py_div a b = (if b = 0 then Inl ZeroDivisionError else Inr (a / b))"

definition math_log :: "real \<Rightarrow> real \<Rightarrow> error + real" where
  \<comment> \<open>\<^verbatim>\<open>math.log(x, b)\<close>: a domain error unless \<open>x\<close> is positive\<close>
  "math_log x b = (if x \<le> 0 then Inl ValueError else Inr (log b x))"

definition math_pow :: "real \<Rightarrow> real \<Rightarrow> real" where
  \<comment> \<open>\<^verbatim>\<open>math.pow(b, y)\<close> for the positive base the source uses\<close>
  "math_pow b y = b powr y"

section \<open>The model object\<close>

record Phoneme_LM =
  UCOUNTS :: "(symbol, nat) dict"
  BCOUNTS :: "(symbol \<times> symbol, nat) dict"
  phoneme_set :: ref
  P :: "(symbol, (symbol, real) dict) dict"

record Absdisc_Phoneme_LM = Phoneme_LM +
  d :: real

definition P_setitem ::
  "(symbol, (symbol, real) dict) dict \<Rightarrow> symbol \<Rightarrow> symbol \<Rightarrow> real \<Rightarrow> (symbol, (symbol, real) dict) dict" where
  \<comment> \<open>\<^verbatim>\<open>self.P[ph1][ph2] = v\<close> on a \<^verbatim>\<open>defaultdict(defaultdict)\<close>: a missing row is created\<close>
  "P_setitem Pd ph1 ph2 v =
     (let row = (case map_of Pd ph1 of None \<Rightarrow> [] | Some r \<Rightarrow> r)
      in AList.update ph1 (AList.update ph2 v row) Pd)"

definition P_getitem ::
  "(symbol, (symbol, real) dict) dict \<Rightarrow> symbol \<Rightarrow> symbol \<Rightarrow> error + real" where
  \<comment> \<open>\<^verbatim>\<open>self.P[ph1][ph2]\<close> read: the inner dict has no default factory, so a missing
      row (created empty by the outer \<^verbatim>\<open>defaultdict\<close>) or a missing entry raises\<close>
  "P_getitem Pd ph1 ph2 =
     (case map_of Pd ph1 of
        None \<Rightarrow> Inl KeyError
      | Some row \<Rightarrow> (case map_of row ph2 of None \<Rightarrow> Inl KeyError | Some v \<Rightarrow> Inr v))"

section \<open>Count extraction (\<^verbatim>\<open>Phoneme_LM.__init__\<close>, lines 22-36)\<close>

definition Ugrams :: "symbol list \<Rightarrow> symbol list" where
  "Ugrams ipa_trans = map (\<lambda>i. ipa_trans ! (i - 1)) [1..<length ipa_trans]"

definition Bgrams :: "symbol list \<Rightarrow> (symbol \<times> symbol) list" where
  "Bgrams ipa_trans = map (\<lambda>i. (ipa_trans ! (i - 1), ipa_trans ! i)) [1..<length ipa_trans]"

fun extract_grams ::
  "symbol list list \<Rightarrow> symbol list \<times> (symbol \<times> symbol) list \<Rightarrow> symbol list \<times> (symbol \<times> symbol) list" where
  "extract_grams [] (ph_Ugrams, ph_Bgrams) = (ph_Ugrams, ph_Bgrams)"
| "extract_grams (ipa_trans # corpus) (ph_Ugrams, ph_Bgrams) =
     extract_grams corpus (ph_Ugrams @ Ugrams ipa_trans, ph_Bgrams @ Bgrams ipa_trans)"

section \<open>Additive smoothing (\<^verbatim>\<open>Phoneme_LM.estimate_probs\<close>)\<close>

fun estimate_inner ::
  "(symbol \<times> symbol, nat) dict \<Rightarrow> nat \<Rightarrow> symbol \<Rightarrow> nat \<Rightarrow> symbol list \<Rightarrow>
   (symbol, (symbol, real) dict) dict \<Rightarrow> error + (symbol, (symbol, real) dict) dict" where
  "estimate_inner B L ph1 Nu [] Pd = Inr Pd"
| "estimate_inner B L ph1 Nu (ph2 # rest) Pd =
     (let Nb = (if contains B (ph1, ph2) then Counter_get B (ph1, ph2) else 0)
      in andThen (py_div (real (Nb + 1)) (real (Nu + L)))
           (\<lambda>v. estimate_inner B L ph1 Nu rest (P_setitem Pd ph1 ph2 v)))"

fun estimate_outer ::
  "(symbol, nat) dict \<Rightarrow> (symbol \<times> symbol, nat) dict \<Rightarrow> nat \<Rightarrow> symbol list \<Rightarrow> symbol list \<Rightarrow>
   (symbol, (symbol, real) dict) dict \<Rightarrow> error + (symbol, (symbol, real) dict) dict" where
  "estimate_outer U B L V [] Pd = Inr Pd"
| "estimate_outer U B L V (ph1 # rest) Pd =
     (let Nu = (if contains U ph1 then Counter_get U ph1 else 0)
      in andThen (estimate_inner B L ph1 Nu V Pd) (estimate_outer U B L V rest))"

definition estimate_probs :: "store \<Rightarrow> 'a Phoneme_LM_scheme \<Rightarrow> error + 'a Phoneme_LM_scheme" where
  "estimate_probs \<sigma> self =
     (let V = list_of_dlist (\<sigma> (phoneme_set self));
          L = length V
      in andThen (estimate_outer (UCOUNTS self) (BCOUNTS self) L V V [])
           (\<lambda>Pd. Inr (self\<lparr>P := Pd\<rparr>)))"

section \<open>Absolute discounting (\<^verbatim>\<open>Absdisc_Phoneme_LM.estimate_probs\<close>)\<close>

definition uniP :: "real \<Rightarrow> (symbol, nat) dict \<Rightarrow> nat \<Rightarrow> symbol \<Rightarrow> error + real" where
  \<comment> \<open>the five lines computing \<^verbatim>\<open>uniP\<close>, which both branches of the source repeat\<close>
  "uniP dv U L ph2 =
     (let Ni = (if contains U ph2 then Counter_get U ph2 else 0);
          N = sum_list (map snd U);
          nPlus_i = sum_list (map (\<lambda>p. 1::nat) (filter (\<lambda>p. Counter_get U p > 0) (map fst U)))
      in andThen (py_div dv (real N)) (\<lambda>q.
           let Zi = q * real nPlus_i
           in andThen (py_div (max (real Ni - dv) 0) (real N)) (\<lambda>a.
                andThen (py_div 1 (real L)) (\<lambda>b. Inr (a + Zi * b)))))"

fun absdisc_unseen ::
  "real \<Rightarrow> (symbol, nat) dict \<Rightarrow> nat \<Rightarrow> symbol \<Rightarrow> symbol list \<Rightarrow>
   (symbol, (symbol, real) dict) dict \<Rightarrow> error + (symbol, (symbol, real) dict) dict" where
  "absdisc_unseen dv U L ph1 [] Pd = Inr Pd"
| "absdisc_unseen dv U L ph1 (ph2 # rest) Pd =
     andThen (uniP dv U L ph2)
       (\<lambda>u. absdisc_unseen dv U L ph1 rest (P_setitem Pd ph1 ph2 u))"

fun absdisc_seen ::
  "real \<Rightarrow> (symbol, nat) dict \<Rightarrow> (symbol \<times> symbol, nat) dict \<Rightarrow> nat \<Rightarrow> symbol \<Rightarrow> nat \<Rightarrow> real \<Rightarrow>
   symbol list \<Rightarrow> (symbol, (symbol, real) dict) dict \<Rightarrow> error + (symbol, (symbol, real) dict) dict" where
  "absdisc_seen dv U B L ph1 Nh Zh [] Pd = Inr Pd"
| "absdisc_seen dv U B L ph1 Nh Zh (ph2 # rest) Pd =
     (let Nb = (if contains B (ph1, ph2) then Counter_get B (ph1, ph2) else 0)
      in andThen (uniP dv U L ph2) (\<lambda>u.
           andThen (py_div (max (real Nb - dv) 0) (real Nh)) (\<lambda>a.
             absdisc_seen dv U B L ph1 Nh Zh rest (P_setitem Pd ph1 ph2 (a + Zh * u)))))"

fun absdisc_outer ::
  "real \<Rightarrow> (symbol, nat) dict \<Rightarrow> (symbol \<times> symbol, nat) dict \<Rightarrow> nat \<Rightarrow> symbol list \<Rightarrow>
   symbol list \<Rightarrow> (symbol, (symbol, real) dict) dict \<Rightarrow> error + (symbol, (symbol, real) dict) dict" where
  "absdisc_outer dv U B L V [] Pd = Inr Pd"
| "absdisc_outer dv U B L V (ph1 # rest) Pd =
     (let Nh = (if contains U ph1 then Counter_get U ph1 else 0)
      in if Nh = 0 then
           andThen (absdisc_unseen dv U L ph1 V Pd) (absdisc_outer dv U B L V rest)
         else
           (let nPlus_h = sum_list (map (\<lambda>p. 1::nat) (filter (\<lambda>(p1, p2). p1 = ph1) (map fst B)))
            in andThen (py_div dv (real Nh)) (\<lambda>q.
                 let Zh = q * real nPlus_h
                 in andThen (absdisc_seen dv U B L ph1 Nh Zh V Pd) (absdisc_outer dv U B L V rest))))"

definition Absdisc_estimate_probs ::
  "store \<Rightarrow> 'a Absdisc_Phoneme_LM_scheme \<Rightarrow> error + 'a Absdisc_Phoneme_LM_scheme" where
  "Absdisc_estimate_probs \<sigma> self =
     (let V = list_of_dlist (\<sigma> (phoneme_set self));
          L = length V
      in andThen (absdisc_outer (d self) (UCOUNTS self) (BCOUNTS self) L V V [])
           (\<lambda>Pd. Inr (self\<lparr>P := Pd\<rparr>)))"

section \<open>Construction\<close>

text \<open>
  \<^verbatim>\<open>__init__\<close> receives the object under construction, the caller's store and a reference
  to the caller's set. The assignment \<^verbatim>\<open>self.phoneme_set = phoneme_set\<close> copies the
  reference, so \<^verbatim>\<open>self.phoneme_set.add('$')\<close> updates the caller's set object. The call
  \<^verbatim>\<open>self.estimate_probs()\<close> dispatches on the class of \<open>self\<close>: the estimator is a
  parameter. The result is the store after the call and either the exception that left the
  constructor or the constructed object.
\<close>

definition Phoneme_LM_init ::
  "(store \<Rightarrow> 'a Phoneme_LM_scheme \<Rightarrow> error + 'a Phoneme_LM_scheme) \<Rightarrow> 'a Phoneme_LM_scheme \<Rightarrow>
   store \<Rightarrow> symbol list list \<Rightarrow> ref \<Rightarrow> bool \<Rightarrow> store \<times> (error + 'a Phoneme_LM_scheme)" where
  "Phoneme_LM_init estimate self \<sigma> corpus r unk =
     (let (ph_Ugrams, ph_Bgrams) = extract_grams corpus ([], []);
          self = self\<lparr>UCOUNTS := Counter ph_Ugrams, BCOUNTS := Counter ph_Bgrams, phoneme_set := r\<rparr>;
          \<sigma> = (if unk then \<sigma>(r := Dlist.insert ''$'' (\<sigma> r)) else \<sigma>)
      in (\<sigma>, estimate \<sigma> self))"

definition Phoneme_LM_new ::
  "store \<Rightarrow> symbol list list \<Rightarrow> ref \<Rightarrow> bool \<Rightarrow> store \<times> (error + Phoneme_LM)" where
  \<comment> \<open>\<^verbatim>\<open>Phoneme_LM(corpus, phoneme_set, unk)\<close>\<close>
  "Phoneme_LM_new \<sigma> corpus r unk =
     Phoneme_LM_init estimate_probs
       \<lparr>UCOUNTS = [], BCOUNTS = [], phoneme_set = r, P = []\<rparr> \<sigma> corpus r unk"

definition Absdisc_Phoneme_LM_new ::
  "store \<Rightarrow> symbol list list \<Rightarrow> ref \<Rightarrow> bool \<Rightarrow> real \<Rightarrow> store \<times> (error + Absdisc_Phoneme_LM)" where
  \<comment> \<open>\<^verbatim>\<open>Absdisc_Phoneme_LM(corpus, phoneme_set, unk, d)\<close>: the base constructor is called
      with \<^verbatim>\<open>unk=True\<close> whatever \<open>unk\<close> is, and estimation runs a second time\<close>
  "Absdisc_Phoneme_LM_new \<sigma> corpus r unk dv =
     (let self = \<lparr>UCOUNTS = [], BCOUNTS = [], phoneme_set = r, P = [], d = dv\<rparr>
      in case Phoneme_LM_init Absdisc_estimate_probs self \<sigma> corpus r True of
           (\<sigma>', Inl e) \<Rightarrow> (\<sigma>', Inl e)
         | (\<sigma>', Inr self') \<Rightarrow> (\<sigma>', Absdisc_estimate_probs \<sigma>' self'))"

section \<open>Evaluation\<close>

definition logP :: "'a Phoneme_LM_scheme \<Rightarrow> symbol \<Rightarrow> symbol \<Rightarrow> error + real" where
  "logP self ph1 ph2 = andThen (P_getitem (P self) ph1 ph2) (\<lambda>p. math_log p 2)"

text \<open>
  The inner loop of \<^verbatim>\<open>perplexity\<close> runs over \<^verbatim>\<open>range(1, len(word))\<close>, where both reads
  \<^verbatim>\<open>word[i - 1]\<close> and \<^verbatim>\<open>word[i]\<close> are in range.
\<close>

fun perplexity_word ::
  "store \<Rightarrow> 'a Phoneme_LM_scheme \<Rightarrow> symbol list \<Rightarrow> nat list \<Rightarrow> real \<times> nat \<Rightarrow> error + real \<times> nat" where
  "perplexity_word \<sigma> self word [] (logProbs, M) = Inr (logProbs, M)"
| "perplexity_word \<sigma> self word (i # is) (logProbs, M) =
     (let ph_h = word ! (i - 1);
          ph_i = word ! i;
          ph_h = (if ph_h \<notin> set (list_of_dlist (\<sigma> (phoneme_set self))) then ''$'' else ph_h);
          ph_i = (if ph_i \<notin> set (list_of_dlist (\<sigma> (phoneme_set self))) then ''$'' else ph_i)
      in andThen (logP self ph_h ph_i)
           (\<lambda>l. perplexity_word \<sigma> self word is (logProbs + l, M + 1)))"

fun perplexity_corpus ::
  "store \<Rightarrow> 'a Phoneme_LM_scheme \<Rightarrow> symbol list list \<Rightarrow> real \<times> nat \<Rightarrow> error + real \<times> nat" where
  "perplexity_corpus \<sigma> self [] acc = Inr acc"
| "perplexity_corpus \<sigma> self (word # test_corpus) acc =
     andThen (perplexity_word \<sigma> self word [1..<length word] acc)
       (perplexity_corpus \<sigma> self test_corpus)"

definition perplexity :: "store \<Rightarrow> 'a Phoneme_LM_scheme \<Rightarrow> symbol list list \<Rightarrow> error + real" where
  "perplexity \<sigma> self test_corpus =
     andThen (perplexity_corpus \<sigma> self test_corpus (0, 0)) (\<lambda>(logProbs, M).
       andThen (py_div (- 1) (real M)) (\<lambda>q. Inr (math_pow 2 (q * logProbs))))"

definition surprisal :: "store \<Rightarrow> 'a Phoneme_LM_scheme \<Rightarrow> symbol list list \<Rightarrow> error + real" where
  "surprisal \<sigma> self test_corpus =
     andThen (perplexity \<sigma> self test_corpus) (\<lambda>PP. math_log PP 2)"

section \<open>The validator (\<^verbatim>\<open>Phoneme_LM.test\<close>)\<close>

fun P_sum_from ::
  "(symbol, (symbol, real) dict) dict \<Rightarrow> symbol \<Rightarrow> symbol list \<Rightarrow> real \<Rightarrow> error + real" where
  \<comment> \<open>\<^verbatim>\<open>sum(self.P[ph1][ph2] for ph2 in ...)\<close> with its running total\<close>
  "P_sum_from Pd ph1 [] acc = Inr acc"
| "P_sum_from Pd ph1 (ph2 # rest) acc =
     andThen (P_getitem Pd ph1 ph2) (\<lambda>v. P_sum_from Pd ph1 rest (acc + v))"

fun test_loop ::
  "(symbol, (symbol, real) dict) dict \<Rightarrow> symbol list \<Rightarrow> symbol list \<Rightarrow> error + unit" where
  "test_loop Pd V [] = Inr ()"
| "test_loop Pd V (ph1 # rest) =
     andThen (P_sum_from Pd ph1 V 0) (\<lambda>P_sum.
       let precision = 1 / 10 ^ 10
       in if \<bar>1 - P_sum\<bar> < precision then test_loop Pd V rest else Inl AssertionError)"

definition test :: "store \<Rightarrow> 'a Phoneme_LM_scheme \<Rightarrow> error + unit" where
  "test \<sigma> self =
     (let V = list_of_dlist (\<sigma> (phoneme_set self)) in test_loop (P self) V V)"

section \<open>Reference formulations\<close>

text \<open>
  The definitions of this section are not translations of the source. They are what the
  loops above are compared with: the closed forms of the values the loops store, and the
  formulas in the words of the specification.
\<close>

text \<open>A store in which every reference holds the set \<open>S\<close>.\<close>

definition store_of :: "pyset \<Rightarrow> store" where
  "store_of S = (\<lambda>r. S)"

text \<open>Out-of-vocabulary mapping of one symbol, and of both positions of every bigram.\<close>

definition remap_unknown :: "store \<Rightarrow> 'a Phoneme_LM_scheme \<Rightarrow> symbol \<Rightarrow> symbol" where
  "remap_unknown \<sigma> self s = (if s \<in> set (list_of_dlist (\<sigma> (phoneme_set self))) then s else ''$'')"

definition remapped_bigrams ::
  "store \<Rightarrow> 'a Phoneme_LM_scheme \<Rightarrow> symbol list list \<Rightarrow> (symbol \<times> symbol) list" where
  "remapped_bigrams \<sigma> self test_corpus =
     map (\<lambda>(h, c). (remap_unknown \<sigma> self h, remap_unknown \<sigma> self c))
       (concat (map Bgrams test_corpus))"

text \<open>The running total of log-probabilities and the bigram count over a list of pairs.\<close>

fun logP_total ::
  "'a Phoneme_LM_scheme \<Rightarrow> (symbol \<times> symbol) list \<Rightarrow> real \<times> nat \<Rightarrow> error + real \<times> nat" where
  "logP_total self [] acc = Inr acc"
| "logP_total self ((h, c) # pairs) (logProbs, M) =
     andThen (logP self h c) (\<lambda>l. logP_total self pairs (logProbs + l, M + 1))"

text \<open>Add-one smoothing: \<open>(count(h,c) + 1) / (count(h) + L)\<close>, missing counts read as 0.\<close>

definition add_one :: "(symbol, nat) dict \<Rightarrow> (symbol \<times> symbol, nat) dict \<Rightarrow> nat \<Rightarrow> symbol \<Rightarrow> symbol \<Rightarrow> real" where
  "add_one U B L h c = real (Counter_get B (h, c) + 1) / real (Counter_get U h + L)"

text \<open>
  The values the loops of the absolute-discounting estimator store, in closed form and with
  the counts read off the tables as the source reads them.
\<close>

definition uniP_value :: "real \<Rightarrow> (symbol, nat) dict \<Rightarrow> nat \<Rightarrow> symbol \<Rightarrow> real" where
  "uniP_value dv U L c =
     max (real (Counter_get U c) - dv) 0 / real (sum_list (map snd U)) +
     dv / real (sum_list (map snd U)) *
       real (length (filter (\<lambda>p. 0 < Counter_get U p) (map fst U))) * (1 / real L)"

definition absdisc_value ::
  "real \<Rightarrow> (symbol, nat) dict \<Rightarrow> (symbol \<times> symbol, nat) dict \<Rightarrow> nat \<Rightarrow> symbol \<Rightarrow> symbol \<Rightarrow> real" where
  "absdisc_value dv U B L h c =
     (if Counter_get U h = 0 then uniP_value dv U L c
      else max (real (Counter_get B (h, c)) - dv) 0 / real (Counter_get U h) +
           dv / real (Counter_get U h) *
             real (length (filter (\<lambda>(p1, p2). p1 = h) (map fst B))) * uniP_value dv U L c)"

text \<open>
  Absolute discounting as the specification words it: \<open>N\<close> is the total unigram mass,
  \<open>Z_uni\<close> is \<open>d/N\<close> times the number of distinct symbols with a positive unigram count,
  \<open>Z_h\<close> is \<open>d/N_h\<close> times the number of distinct symbols \<open>c'\<close> with a positive count of
  \<open>(h, c')\<close>; a missing count is 0.
\<close>

definition discounted_unigram :: "real \<Rightarrow> (symbol, nat) dict \<Rightarrow> nat \<Rightarrow> symbol \<Rightarrow> real" where
  "discounted_unigram dv U L c =
     (let N = sum_list (map snd U);
          Z_uni = (dv / real N) * real (card {s. 0 < Counter_get U s})
      in max (real (Counter_get U c) - dv) 0 / real N + Z_uni * (1 / real L))"

definition absolute_discounting ::
  "real \<Rightarrow> (symbol, nat) dict \<Rightarrow> (symbol \<times> symbol, nat) dict \<Rightarrow> nat \<Rightarrow> symbol \<Rightarrow> symbol \<Rightarrow> real" where
  "absolute_discounting dv U B L h c =
     (let N_h = Counter_get U h;
          Z_h = (dv / real N_h) * real (card {c'. 0 < Counter_get B (h, c')})
      in if N_h = 0 then discounted_unigram dv U L c
         else max (real (Counter_get B (h, c)) - dv) 0 / real N_h + Z_h * discounted_unigram dv U L c)"

section \<open>Basic facts\<close>

lemma andThen_Inl [simp]: "andThen (Inl e) f = Inl e"
  by (simp add: andThen_def)

lemma andThen_Inr [simp]: "andThen (Inr v) f = f v"
  by (simp add: andThen_def)

lemma andThen_eq_Inr: "andThen r f = Inr y \<longleftrightarrow> (\<exists>v. r = Inr v \<and> f v = Inr y)"
  by (cases r) simp_all

lemma guarded_Counter_get [simp]:
  "(if contains C k then Counter_get C k else 0) = Counter_get C k"
  by (simp add: contains_def Counter_get_def)

lemma contains_iff: "contains C k \<longleftrightarrow> k \<in> fst ` set C"
  by (simp add: contains_def map_of_eq_None_iff)

lemma Counter_get_update:
  "Counter_get (AList.update x v C) k = (if k = x then v else Counter_get C k)"
  by (simp add: Counter_get_def update_conv')

lemma Counter_get_Counter_update:
  "Counter_get (Counter_update C xs) k = Counter_get C k + count_list xs k"
  by (induction xs arbitrary: C) (simp_all add: Counter_get_update)

lemma keys_Counter_update:
  "fst ` set (Counter_update C xs) = fst ` set C \<union> set xs"
  by (induction xs arbitrary: C) (auto simp: dom_update)

lemma distinct_Counter_update:
  "distinct (map fst C) \<Longrightarrow> distinct (map fst (Counter_update C xs))"
  by (induction xs arbitrary: C) (simp_all add: distinct_update)

lemma sum_values_update:
  "sum_list (map snd (AList.update x (Suc (Counter_get C x)) C)) = Suc (sum_list (map snd C))"
  by (induction C) (auto simp: Counter_get_def)

lemma sum_values_Counter_update:
  "sum_list (map snd (Counter_update C xs)) = sum_list (map snd C) + length xs"
  by (induction xs arbitrary: C) (simp_all add: sum_values_update)

lemma Counter_get_Nil [simp]: "Counter_get [] k = 0"
  by (simp add: Counter_get_def)

lemma Counter_get_Counter [simp]: "Counter_get (Counter xs) k = count_list xs k"
  by (simp add: Counter_def Counter_get_Counter_update)

lemma keys_Counter [simp]: "fst ` set (Counter xs) = set xs"
  by (simp add: Counter_def keys_Counter_update)

lemma distinct_Counter [simp]: "distinct (map fst (Counter xs))"
  by (simp add: Counter_def distinct_Counter_update)

lemma sum_values_Counter [simp]: "sum_list (map snd (Counter xs)) = length xs"
  by (simp add: Counter_def sum_values_Counter_update)

lemma contains_Counter [simp]: "contains (Counter xs) k \<longleftrightarrow> k \<in> set xs"
  by (simp add: contains_iff)

lemma Counter_Nil [simp]: "Counter [] = []"
  by (simp add: Counter_def)

lemma positive_keys_Counter:
  "filter (\<lambda>p. Counter_get (Counter xs) p > 0) (map fst (Counter xs)) = map fst (Counter xs)"
proof -
  have "\<forall>p \<in> set (map fst (Counter xs)). count_list xs p > 0"
    using count_list_0_iff [of xs] by fastforce
  then show ?thesis by (simp add: filter_id_conv)
qed

lemma length_keys_Counter: "length (Counter xs) = card (set xs)"
proof -
  have "card (set (map fst (Counter xs))) = length (map fst (Counter xs))"
    by (rule distinct_card) simp
  then show ?thesis by simp
qed

lemma P_getitem_setitem:
  "P_getitem (P_setitem Pd a b v) h c = (if h = a \<and> c = b then Inr v else P_getitem Pd h c)"
  by (auto simp: P_getitem_def P_setitem_def update_conv' split: option.splits)

lemma extract_grams_acc:
  "extract_grams corpus (U, B) =
     (U @ concat (map Ugrams corpus), B @ concat (map Bgrams corpus))"
  by (induction corpus arbitrary: U B) simp_all

lemma Ugrams_Bgrams: "Ugrams w = map fst (Bgrams w)"
  by (simp add: Ugrams_def Bgrams_def)

lemma Ugrams_butlast: "Ugrams w = butlast w"
  by (rule nth_equalityI) (auto simp: Ugrams_def nth_butlast)

lemma Bgrams_zip: "Bgrams w = zip (butlast w) (tl w)"
  by (rule nth_equalityI) (auto simp: Bgrams_def nth_butlast nth_tl)

lemma P_getitem_Nil [simp]: "P_getitem [] h c = Inl KeyError"
  by (simp add: P_getitem_def)

lemma py_div_Inr: "b \<noteq> 0 \<Longrightarrow> py_div a b = Inr (a / b)"
  by (simp add: py_div_def)

lemma py_div_zero [simp]: "py_div a 0 = Inl ZeroDivisionError"
  by (simp add: py_div_def)

lemma estimate_inner_result:
  assumes "xs = [] \<or> 0 < L"
  shows "\<exists>Pd'. estimate_inner B L ph1 Nu xs Pd = Inr Pd' \<and>
           (\<forall>h c. P_getitem Pd' h c =
              (if h = ph1 \<and> c \<in> set xs
               then Inr (real (Counter_get B (ph1, c) + 1) / real (Nu + L))
               else P_getitem Pd h c))"
  using assms
proof (induction xs arbitrary: Pd)
  case Nil
  show ?case by simp
next
  case (Cons ph2 rest)
  then have L: "0 < L" by simp
  let ?v = "real (Counter_get B (ph1, ph2) + 1) / real (Nu + L)"
  from L have div: "py_div (real (Counter_get B (ph1, ph2) + 1)) (real (Nu + L)) = Inr ?v"
    by (intro py_div_Inr) simp
  from Cons.IH [of "P_setitem Pd ph1 ph2 ?v"] L
  obtain Pd' where Pd': "estimate_inner B L ph1 Nu rest (P_setitem Pd ph1 ph2 ?v) = Inr Pd'"
    and get: "\<forall>h c. P_getitem Pd' h c =
              (if h = ph1 \<and> c \<in> set rest
               then Inr (real (Counter_get B (ph1, c) + 1) / real (Nu + L))
               else P_getitem (P_setitem Pd ph1 ph2 ?v) h c)"
    by blast
  have "estimate_inner B L ph1 Nu (ph2 # rest) Pd = Inr Pd'"
    using div Pd' by (simp del: of_nat_add of_nat_Suc)
  moreover have "\<forall>h c. P_getitem Pd' h c =
              (if h = ph1 \<and> c \<in> set (ph2 # rest)
               then Inr (real (Counter_get B (ph1, c) + 1) / real (Nu + L))
               else P_getitem Pd h c)"
    using get by (auto simp: P_getitem_setitem)
  ultimately show ?case by blast
qed

lemma estimate_outer_result:
  assumes "V = [] \<or> 0 < L"
  shows "\<exists>Pd'. estimate_outer U B L V hs Pd = Inr Pd' \<and>
           (\<forall>h c. P_getitem Pd' h c =
              (if h \<in> set hs \<and> c \<in> set V then Inr (add_one U B L h c) else P_getitem Pd h c))"
proof (induction hs arbitrary: Pd)
  case Nil
  show ?case by simp
next
  case (Cons ph1 rest)
  from estimate_inner_result [OF assms, of B ph1 "Counter_get U ph1" Pd]
  obtain Pd1 where Pd1: "estimate_inner B L ph1 (Counter_get U ph1) V Pd = Inr Pd1"
    and get1: "\<forall>h c. P_getitem Pd1 h c =
              (if h = ph1 \<and> c \<in> set V then Inr (add_one U B L ph1 c) else P_getitem Pd h c)"
    unfolding add_one_def by blast
  from Cons.IH [of Pd1]
  obtain Pd' where Pd': "estimate_outer U B L V rest Pd1 = Inr Pd'"
    and get: "\<forall>h c. P_getitem Pd' h c =
              (if h \<in> set rest \<and> c \<in> set V then Inr (add_one U B L h c) else P_getitem Pd1 h c)"
    by blast
  have "estimate_outer U B L V (ph1 # rest) Pd = Inr Pd'"
    using Pd1 Pd' by simp
  moreover have "\<forall>h c. P_getitem Pd' h c =
              (if h \<in> set (ph1 # rest) \<and> c \<in> set V then Inr (add_one U B L h c) else P_getitem Pd h c)"
    using get get1 by auto
  ultimately show ?case by blast
qed

lemma estimate_probs_result:
  "\<exists>Pd. estimate_probs \<sigma> self = Inr (self\<lparr>P := Pd\<rparr>) \<and>
     (\<forall>h c. P_getitem Pd h c =
        (if h \<in> set (list_of_dlist (\<sigma> (phoneme_set self))) \<and> c \<in> set (list_of_dlist (\<sigma> (phoneme_set self)))
         then Inr (add_one (UCOUNTS self) (BCOUNTS self) (length (list_of_dlist (\<sigma> (phoneme_set self)))) h c)
         else Inl KeyError))"
proof -
  let ?V = "list_of_dlist (\<sigma> (phoneme_set self))"
  have "?V = [] \<or> 0 < length ?V" by auto
  from estimate_outer_result [OF this, of "UCOUNTS self" "BCOUNTS self" ?V "[]"]
  obtain Pd where "estimate_outer (UCOUNTS self) (BCOUNTS self) (length ?V) ?V ?V [] = Inr Pd"
    and "\<forall>h c. P_getitem Pd h c =
        (if h \<in> set ?V \<and> c \<in> set ?V
         then Inr (add_one (UCOUNTS self) (BCOUNTS self) (length ?V) h c) else Inl KeyError)"
    by auto
  then show ?thesis
    by (auto simp: estimate_probs_def Let_def)
qed

lemma P_sum_from_result:
  assumes "\<forall>c \<in> set xs. P_getitem Pd h c = Inr (f c)"
  shows "P_sum_from Pd h xs acc = Inr (acc + sum_list (map f xs))"
  using assms by (induction xs arbitrary: acc) (simp_all add: add.assoc)

lemma count_row_sum:
  assumes "finite S" and "snd ` set Bl \<subseteq> S"
  shows "(\<Sum>c\<in>S. count_list Bl (h, c)) = count_list (map fst Bl) h"
  using assms(2)
proof (induction Bl)
  case Nil
  show ?case by simp
next
  case (Cons p Bl)
  obtain a b where p: "p = (a, b)" by (cases p)
  from Cons.prems p have b: "b \<in> S" and sub: "snd ` set Bl \<subseteq> S" by auto
  have "(\<Sum>c\<in>S. count_list (p # Bl) (h, c)) =
        (\<Sum>c\<in>S. count_list Bl (h, c) + (if b = c then (if a = h then 1 else 0) else 0))"
    by (intro sum.cong) (auto simp: p)
  also have "\<dots> = (\<Sum>c\<in>S. count_list Bl (h, c)) + (\<Sum>c\<in>S. if b = c then (if a = h then 1 else 0) else 0)"
    by (rule sum.distrib)
  also have "(\<Sum>c\<in>S. if b = c then (if a = h then 1 else 0) else 0) = (if a = h then 1 else (0::nat))"
    using assms(1) b by (simp add: sum.delta)
  finally show ?case using Cons.IH [OF sub] by (simp add: p)
qed

lemma discount_sum:
  fixes f :: "'a \<Rightarrow> nat"
  assumes "finite S" and "0 \<le> dv" and "dv \<le> 1"
  shows "(\<Sum>c\<in>S. max (real (f c) - dv) 0) = real (\<Sum>c\<in>S. f c) - dv * real (card {c \<in> S. 0 < f c})"
proof -
  have pointwise: "max (real (f c) - dv) 0 = real (f c) - dv * (if 0 < f c then 1 else 0)" for c
  proof (cases "0 < f c")
    case True
    then have "1 \<le> real (f c)" by simp
    with assms(3) True show ?thesis by simp
  next
    case False
    with assms(2) show ?thesis by simp
  qed
  have "(\<Sum>c\<in>S. max (real (f c) - dv) 0) = (\<Sum>c\<in>S. real (f c) - dv * (if 0 < f c then 1 else 0))"
    by (simp add: pointwise)
  also have "\<dots> = (\<Sum>c\<in>S. real (f c)) - dv * (\<Sum>c\<in>S. if 0 < f c then 1 else 0)"
    by (simp add: sum_subtractf sum_distrib_left)
  also have "(\<Sum>c\<in>S. if 0 < f c then 1 else (0::real)) = real (card {c \<in> S. 0 < f c})"
    using assms(1) by (simp add: sum.If_cases Int_def)
  finally show ?thesis by simp
qed

subsection \<open>A small fitted model\<close>

lemma example_fit:
  "Phoneme_LM_new (store_of (Dlist [''a'', ''b''])) [[''a'', ''b'']] 0 False =
   (store_of (Dlist [''a'', ''b'']),
    Inr \<lparr>UCOUNTS = [(''a'', 1)], BCOUNTS = [((''a'', ''b''), 1)], phoneme_set = 0,
         P = [(''a'', [(''a'', 1/3), (''b'', 2/3)]), (''b'', [(''a'', 1/2), (''b'', 1/2)])]\<rparr>)"
  by (simp add: Phoneme_LM_new_def Phoneme_LM_init_def estimate_probs_def store_of_def
      Ugrams_def Bgrams_def Counter_def Counter_get_def contains_def py_div_def P_setitem_def upt_rec)

lemma example_perplexity:
  "perplexity (store_of (Dlist [''a'', ''b'']))
     \<lparr>UCOUNTS = [(''a'', 1)], BCOUNTS = [((''a'', ''b''), 1)], phoneme_set = 0,
      P = [(''a'', [(''a'', 1/3), (''b'', 2/3)]), (''b'', [(''a'', 1/2), (''b'', 1/2)])]\<rparr>
     [[''a'', ''b'']] = Inr (3/2)"
  by (simp add: perplexity_def store_of_def logP_def P_getitem_def math_log_def math_pow_def
      py_div_def upt_rec powr_minus)

section \<open>Evaluation: facts and claims\<close>

lemma logP_total_append:
  "logP_total self (ps @ qs) acc = andThen (logP_total self ps acc) (logP_total self qs)"
proof (induction ps arbitrary: acc)
  case Nil
  show ?case by simp
next
  case (Cons p ps)
  obtain h c where p: "p = (h, c)" by (cases p)
  obtain lp M where acc: "acc = (lp, M)" by (cases acc)
  show ?case
    by (cases "logP self h c") (simp_all add: p acc Cons.IH)
qed

lemma perplexity_word_remap:
  "perplexity_word \<sigma> self word is acc =
     logP_total self
       (map (\<lambda>i. (remap_unknown \<sigma> self (word ! (i - 1)), remap_unknown \<sigma> self (word ! i))) is) acc"
proof (induction "is" arbitrary: acc)
  case Nil
  show ?case by (cases acc) simp
next
  case (Cons i "is")
  obtain lp M where acc: "acc = (lp, M)" by (cases acc)
  show ?case
    by (simp add: acc Let_def remap_unknown_def Cons.IH)
qed

lemma perplexity_corpus_remap:
  "perplexity_corpus \<sigma> self test_corpus acc =
     logP_total self (remapped_bigrams \<sigma> self test_corpus) acc"
proof (induction test_corpus arbitrary: acc)
  case Nil
  show ?case by (simp add: remapped_bigrams_def)
next
  case (Cons word test_corpus)
  have split: "remapped_bigrams \<sigma> self (word # test_corpus) =
      map (\<lambda>i. (remap_unknown \<sigma> self (word ! (i - 1)), remap_unknown \<sigma> self (word ! i)))
        [1..<length word] @ remapped_bigrams \<sigma> self test_corpus"
    by (simp add: remapped_bigrams_def Bgrams_def comp_def)
  have rest: "perplexity_corpus \<sigma> self test_corpus =
      logP_total self (remapped_bigrams \<sigma> self test_corpus)"
    by (rule ext) (rule Cons.IH)
  show ?case
    by (simp add: split logP_total_append perplexity_word_remap rest)
qed

text \<open>
  Claim C7. In \<^verbatim>\<open>perplexity\<close>, every bigram position of the held-out corpus is checked
  against the vocabulary on its own: the pair that is looked up is the bigram with its
  history replaced by \<^verbatim>\<open>'$'\<close> when the history is not in the vocabulary and its current
  symbol replaced by \<^verbatim>\<open>'$'\<close> when the current symbol is not, one substitution not
  depending on the other. The loops of the source compute exactly the total of
  log-probabilities, and the count, of the bigrams remapped position by position.
\<close>

theorem perplexity_remaps_each_position:
  "perplexity \<sigma> self test_corpus =
     andThen (logP_total self (remapped_bigrams \<sigma> self test_corpus) (0, 0)) (\<lambda>(logProbs, M).
       andThen (py_div (- 1) (real M)) (\<lambda>q. Inr (math_pow 2 (q * logProbs))))"
  by (simp add: perplexity_def perplexity_corpus_remap)

lemma remapped_bigrams_example:
  "remapped_bigrams (store_of (Dlist [''a'', ''$'']))
     \<lparr>UCOUNTS = [], BCOUNTS = [], phoneme_set = 0, P = []\<rparr> [[''x'', ''a'', ''y'', ''z'']] =
     [(''$'', ''a''), (''a'', ''$''), (''$'', ''$'')]"
  by (simp add: remapped_bigrams_def remap_unknown_def Bgrams_def store_of_def upt_rec)

lemma perplexity_corpus_no_bigrams:
  "\<forall>word \<in> set test_corpus. length word < 2 \<Longrightarrow> perplexity_corpus \<sigma> self test_corpus acc = Inr acc"
proof (induction test_corpus)
  case Nil
  show ?case by simp
next
  case (Cons word test_corpus)
  then have "[1..<length word] = []" by simp
  with Cons show ?case by (cases acc) simp
qed

text \<open>
  Claim C10. On a held-out corpus without bigrams (empty, or all of whose sequences are
  shorter than 2) the loops leave the running total and the count \<open>M\<close> at 0, and
  \<^verbatim>\<open>-1/M\<close> raises \<^verbatim>\<open>ZeroDivisionError\<close>, from \<^verbatim>\<open>perplexity\<close> and hence from
  \<^verbatim>\<open>surprisal\<close>, whatever the model is.
\<close>

theorem perplexity_no_bigrams_raises:
  assumes "\<forall>word \<in> set test_corpus. length word < 2"
  shows "perplexity \<sigma> self test_corpus = Inl ZeroDivisionError
       \<and> surprisal \<sigma> self test_corpus = Inl ZeroDivisionError
       \<and> perplexity_corpus \<sigma> self test_corpus (0, 0) = Inr (0, 0)"
  using assms
  by (simp add: perplexity_def surprisal_def perplexity_corpus_no_bigrams py_div_def)

theorem perplexity_no_bigrams_raises_witness:
  "perplexity (store_of (Dlist [''a'', ''b'']))
       \<lparr>UCOUNTS = [(''a'', 1)], BCOUNTS = [((''a'', ''b''), 1)], phoneme_set = 0,
        P = [(''a'', [(''a'', 1/3), (''b'', 2/3)]), (''b'', [(''a'', 1/2), (''b'', 1/2)])]\<rparr>
       [[''#''], []] = Inl ZeroDivisionError
   \<and> surprisal (store_of (Dlist [''a'', ''b'']))
       \<lparr>UCOUNTS = [(''a'', 1)], BCOUNTS = [((''a'', ''b''), 1)], phoneme_set = 0,
        P = [(''a'', [(''a'', 1/3), (''b'', 2/3)]), (''b'', [(''a'', 1/2), (''b'', 1/2)])]\<rparr>
       [[''#''], []] = Inl ZeroDivisionError"
proof -
  have short: "\<forall>word \<in> set [[''#''], []]. length word < 2" by simp
  show ?thesis
    using perplexity_no_bigrams_raises [OF short] by blast
qed

text \<open>
  Claim C9. Whenever \<^verbatim>\<open>perplexity\<close> returns a value on a corpus, \<^verbatim>\<open>surprisal\<close> returns
  the base-2 logarithm of that value on the same corpus: the domain check of
  \<^verbatim>\<open>math.log\<close> cannot fail, a power of 2 being positive.
\<close>

theorem surprisal_is_log2_perplexity:
  assumes "perplexity \<sigma> self test_corpus = Inr PP"
  shows "surprisal \<sigma> self test_corpus = Inr (log 2 PP)"
proof -
  from assms obtain y where "PP = math_pow 2 y"
    by (auto simp: perplexity_def andThen_eq_Inr split: prod.splits)
  then have "0 < PP" by (simp add: math_pow_def)
  with assms show ?thesis by (simp add: surprisal_def math_log_def)
qed

theorem surprisal_is_log2_perplexity_witness:
  "snd (Phoneme_LM_new (store_of (Dlist [''a'', ''b''])) [[''a'', ''b'']] 0 False) =
     Inr \<lparr>UCOUNTS = [(''a'', 1)], BCOUNTS = [((''a'', ''b''), 1)], phoneme_set = 0,
          P = [(''a'', [(''a'', 1/3), (''b'', 2/3)]), (''b'', [(''a'', 1/2), (''b'', 1/2)])]\<rparr>
   \<and> perplexity (store_of (Dlist [''a'', ''b'']))
       \<lparr>UCOUNTS = [(''a'', 1)], BCOUNTS = [((''a'', ''b''), 1)], phoneme_set = 0,
        P = [(''a'', [(''a'', 1/3), (''b'', 2/3)]), (''b'', [(''a'', 1/2), (''b'', 1/2)])]\<rparr>
       [[''a'', ''b'']] = Inr (3/2)
   \<and> surprisal (store_of (Dlist [''a'', ''b'']))
       \<lparr>UCOUNTS = [(''a'', 1)], BCOUNTS = [((''a'', ''b''), 1)], phoneme_set = 0,
        P = [(''a'', [(''a'', 1/3), (''b'', 2/3)]), (''b'', [(''a'', 1/2), (''b'', 1/2)])]\<rparr>
       [[''a'', ''b'']] = Inr (log 2 (3/2))"
  using surprisal_is_log2_perplexity [OF example_perplexity] example_perplexity example_fit
  by simp

lemma count_list_map_card:
  "count_list (map f [1..<n]) k = card {i. 1 \<le> i \<and> i < n \<and> f i = k}"
proof -
  have "count_list (map f [1..<n]) k = length (filter (\<lambda>i. f i = k) [1..<n])"
    by (induction n) auto
  also have "\<dots> = card ({i. f i = k} \<inter> set [1..<n])"
    by (rule distinct_length_filter) simp
  also have "{i. f i = k} \<inter> set [1..<n] = {i. 1 \<le> i \<and> i < n \<and> f i = k}"
    by auto
  finally show ?thesis .
qed

lemma count_list_Bgrams:
  "count_list (Bgrams w) (x, y) = card {i. 1 \<le> i \<and> i < length w \<and> w ! (i - 1) = x \<and> w ! i = y}"
  using count_list_map_card [of "\<lambda>i. (w ! (i - 1), w ! i)" "length w" "(x, y)"]
  by (simp add: Bgrams_def)

lemma count_list_Ugrams:
  "count_list (Ugrams w) x = card {i. 1 \<le> i \<and> i < length w \<and> w ! (i - 1) = x}"
  using count_list_map_card [of "\<lambda>i. w ! (i - 1)" "length w" x]
  by (simp add: Ugrams_def)

section \<open>Construction and the additive estimator\<close>

lemma extract_grams_start:
  "extract_grams corpus ([], []) = (concat (map Ugrams corpus), concat (map Bgrams corpus))"
  by (simp add: extract_grams_acc)

lemma corpus_Ugrams_Bgrams:
  "concat (map Ugrams corpus) = map fst (concat (map Bgrams corpus))"
  by (induction corpus) (simp_all add: Ugrams_Bgrams)

lemma Bgrams_symbols: "(a, b) \<in> set (Bgrams w) \<Longrightarrow> a \<in> set w \<and> b \<in> set w"
  by (auto simp: Bgrams_def less_imp_diff_less)

lemma corpus_Bgrams_symbols:
  assumes "\<forall>w \<in> set corpus. set w \<subseteq> S"
  shows "snd ` set (concat (map Bgrams corpus)) \<subseteq> S"
  using assms Bgrams_symbols by fastforce

lemma Phoneme_LM_init_eq:
  "Phoneme_LM_init estimate self \<sigma> corpus r unk =
     ((if unk then \<sigma>(r := Dlist.insert ''$'' (\<sigma> r)) else \<sigma>),
      estimate (if unk then \<sigma>(r := Dlist.insert ''$'' (\<sigma> r)) else \<sigma>)
        (self\<lparr>UCOUNTS := Counter (concat (map Ugrams corpus)),
              BCOUNTS := Counter (concat (map Bgrams corpus)),
              phoneme_set := r\<rparr>))"
  by (simp add: Phoneme_LM_init_def extract_grams_start Let_def)

lemma Phoneme_LM_new_result:
  fixes \<sigma> :: store
  defines "\<sigma>' unk r \<equiv> (if unk then \<sigma>(r := Dlist.insert ''$'' (\<sigma> r)) else \<sigma>)"
  shows "\<exists>Pd. Phoneme_LM_new \<sigma> corpus r unk =
           (\<sigma>' unk r,
            Inr \<lparr>UCOUNTS = Counter (concat (map Ugrams corpus)),
                 BCOUNTS = Counter (concat (map Bgrams corpus)),
                 phoneme_set = r, P = Pd\<rparr>) \<and>
     (\<forall>h c. P_getitem Pd h c =
        (if h \<in> set (list_of_dlist (\<sigma>' unk r r)) \<and> c \<in> set (list_of_dlist (\<sigma>' unk r r))
         then Inr (add_one (Counter (concat (map Ugrams corpus))) (Counter (concat (map Bgrams corpus)))
                    (length (list_of_dlist (\<sigma>' unk r r))) h c)
         else Inl KeyError))"
proof -
  let ?self = "\<lparr>UCOUNTS = Counter (concat (map Ugrams corpus)),
                 BCOUNTS = Counter (concat (map Bgrams corpus)),
                 phoneme_set = r, P = []\<rparr>"
  from estimate_probs_result [of "\<sigma>' unk r" ?self]
  obtain Pd where "estimate_probs (\<sigma>' unk r) ?self = Inr (?self\<lparr>P := Pd\<rparr>)"
    and "\<forall>h c. P_getitem Pd h c =
        (if h \<in> set (list_of_dlist (\<sigma>' unk r r)) \<and> c \<in> set (list_of_dlist (\<sigma>' unk r r))
         then Inr (add_one (Counter (concat (map Ugrams corpus))) (Counter (concat (map Bgrams corpus)))
                    (length (list_of_dlist (\<sigma>' unk r r))) h c)
         else Inl KeyError)"
    by auto
  then show ?thesis
    by (auto simp: Phoneme_LM_new_def Phoneme_LM_init_eq \<sigma>'_def)
qed

lemma additive_row_sum:
  assumes "distinct V" and "V \<noteq> []" and "snd ` set Bl \<subseteq> set V"
  shows "sum_list (map (add_one (Counter (map fst Bl)) (Counter Bl) (length V) h) V) = 1"
proof -
  let ?D = "real (count_list (map fst Bl) h + length V)"
  from assms(2) have "0 < count_list (map fst Bl) h + length V" by simp
  then have "0 < ?D" by (simp only: of_nat_0_less_iff)
  then have D: "?D \<noteq> 0" by simp
  have "sum_list (map (add_one (Counter (map fst Bl)) (Counter Bl) (length V) h) V) =
        (\<Sum>c\<in>set V. real (count_list Bl (h, c) + 1) / ?D)"
    using assms(1) by (simp add: sum_list_distinct_conv_sum_set add_one_def del: of_nat_add of_nat_Suc)
  also have "\<dots> = real (\<Sum>c\<in>set V. count_list Bl (h, c) + 1) / ?D"
    by (simp add: sum_divide_distrib del: of_nat_add of_nat_Suc)
  also have "(\<Sum>c\<in>set V. count_list Bl (h, c) + 1) = count_list (map fst Bl) h + length V"
  proof -
    have "(\<Sum>c\<in>set V. count_list Bl (h, c) + 1) =
          (\<Sum>c\<in>set V. count_list Bl (h, c)) + (\<Sum>c\<in>set V. 1)"
      by (rule sum.distrib)
    then show ?thesis
      using count_row_sum [of "set V" Bl h] assms(1,3) by (simp add: distinct_card)
  qed
  finally show ?thesis using D by simp
qed

lemma test_loop_ok:
  "\<forall>h \<in> set hs. P_sum_from Pd h V 0 = Inr 1 \<Longrightarrow> test_loop Pd V hs = Inr ()"
  by (induction hs) simp_all

text \<open>
  Claim C3. \<^verbatim>\<open>Phoneme_LM.estimate_probs\<close> never fails and stores, for every ordered pair
  \<open>(h, c)\<close> of symbols of the vocabulary, the probability
  \<open>(count(h,c) + 1) / (count(h) + |vocabulary|)\<close>, a count missing from the tables being 0;
  that probability is strictly positive.
\<close>

theorem additive_estimator_formula:
  "\<exists>Pd. estimate_probs \<sigma> self = Inr (self\<lparr>P := Pd\<rparr>) \<and>
     (\<forall>h \<in> set (list_of_dlist (\<sigma> (phoneme_set self))).
      \<forall>c \<in> set (list_of_dlist (\<sigma> (phoneme_set self))).
        P_getitem Pd h c =
          Inr (real (Counter_get (BCOUNTS self) (h, c) + 1) /
               real (Counter_get (UCOUNTS self) h + length (list_of_dlist (\<sigma> (phoneme_set self)))))
        \<and> 0 < real (Counter_get (BCOUNTS self) (h, c) + 1) /
               real (Counter_get (UCOUNTS self) h + length (list_of_dlist (\<sigma> (phoneme_set self)))))"
proof -
  let ?V = "list_of_dlist (\<sigma> (phoneme_set self))"
  from estimate_probs_result [of \<sigma> self]
  obtain Pd where est: "estimate_probs \<sigma> self = Inr (self\<lparr>P := Pd\<rparr>)"
    and get: "\<forall>h c. P_getitem Pd h c =
        (if h \<in> set ?V \<and> c \<in> set ?V
         then Inr (add_one (UCOUNTS self) (BCOUNTS self) (length ?V) h c) else Inl KeyError)"
    by blast
  have pos: "0 < real (Counter_get (BCOUNTS self) (h, c) + 1) /
               real (Counter_get (UCOUNTS self) h + length ?V)" if "h \<in> set ?V" for h c
  proof -
    from that have "0 < length ?V" by (cases ?V) auto
    then have "0 < real (Counter_get (UCOUNTS self) h + length ?V)"
      by (simp only: of_nat_0_less_iff)
    moreover have "0 < real (Counter_get (BCOUNTS self) (h, c) + 1)"
      by simp
    ultimately show ?thesis by (rule divide_pos_pos [rotated])
  qed
  from est get pos show ?thesis
    by (intro exI [of _ Pd]) (simp add: add_one_def del: of_nat_add of_nat_Suc)
qed

theorem additive_estimator_formula_witness:
  "\<exists>Pd. estimate_probs (store_of (Dlist [''a'', ''b'']))
          \<lparr>UCOUNTS = [(''a'', 1)], BCOUNTS = [((''a'', ''b''), 1)], phoneme_set = 0, P = []\<rparr> =
        Inr \<lparr>UCOUNTS = [(''a'', 1)], BCOUNTS = [((''a'', ''b''), 1)], phoneme_set = 0, P = Pd\<rparr>
      \<and> P_getitem Pd ''a'' ''b'' = Inr (2 / 3) \<and> P_getitem Pd ''a'' ''a'' = Inr (1 / 3)
      \<and> P_getitem Pd ''b'' ''a'' = Inr (1 / 2)"
proof -
  let ?\<sigma> = "store_of (Dlist [''a'', ''b''])"
  let ?self = "\<lparr>UCOUNTS = [(''a'', 1)], BCOUNTS = [((''a'', ''b''), 1)], phoneme_set = 0, P = []\<rparr>"
  from additive_estimator_formula [of ?\<sigma> ?self]
  obtain Pd where est: "estimate_probs ?\<sigma> ?self = Inr (?self\<lparr>P := Pd\<rparr>)"
    and get: "\<forall>h \<in> set (list_of_dlist (?\<sigma> (phoneme_set ?self))).
      \<forall>c \<in> set (list_of_dlist (?\<sigma> (phoneme_set ?self))).
        P_getitem Pd h c =
          Inr (real (Counter_get (BCOUNTS ?self) (h, c) + 1) /
               real (Counter_get (UCOUNTS ?self) h + length (list_of_dlist (?\<sigma> (phoneme_set ?self)))))"
    by blast
  from get have "P_getitem Pd ''a'' ''b'' = Inr (2 / 3)" "P_getitem Pd ''a'' ''a'' = Inr (1 / 3)"
    "P_getitem Pd ''b'' ''a'' = Inr (1 / 2)"
    by (simp_all add: store_of_def Counter_get_def)
  with est show ?thesis by simp
qed

text \<open>
  Claim C8. The count extractor of \<^verbatim>\<open>__init__\<close> raises nothing. The bigram table counts
  \<open>(x, y)\<close> once for every sequence and every position \<open>i\<close> in \<open>[1, len(seq))\<close> with
  \<open>seq[i-1] = x\<close> and \<open>seq[i] = y\<close>; the unigram table counts \<open>x\<close> once for every such
  position with \<open>seq[i-1] = x\<close>, which is the number of occurrences of \<open>x\<close> in the
  sequences without their last symbols; an empty corpus gives two empty tables. No
  assumption on the lengths of the sequences is needed.
\<close>

theorem count_extractor_tables:
  "(\<exists>Pd. snd (Phoneme_LM_new \<sigma> corpus r unk) =
       Inr \<lparr>UCOUNTS = Counter (concat (map Ugrams corpus)),
            BCOUNTS = Counter (concat (map Bgrams corpus)), phoneme_set = r, P = Pd\<rparr>)
   \<and> Counter_get (Counter (concat (map Bgrams corpus))) (x, y) =
       (\<Sum>w\<leftarrow>corpus. card {i. 1 \<le> i \<and> i < length w \<and> w ! (i - 1) = x \<and> w ! i = y})
   \<and> Counter_get (Counter (concat (map Ugrams corpus))) x =
       (\<Sum>w\<leftarrow>corpus. card {i. 1 \<le> i \<and> i < length w \<and> w ! (i - 1) = x})
   \<and> Counter_get (Counter (concat (map Ugrams corpus))) x = (\<Sum>w\<leftarrow>corpus. count_list (butlast w) x)
   \<and> (\<exists>Pd. snd (Phoneme_LM_new \<sigma> [] r unk) =
       Inr \<lparr>UCOUNTS = [], BCOUNTS = [], phoneme_set = r, P = Pd\<rparr>)"
proof -
  from Phoneme_LM_new_result [of \<sigma> corpus r unk]
  have a: "\<exists>Pd. snd (Phoneme_LM_new \<sigma> corpus r unk) =
       Inr \<lparr>UCOUNTS = Counter (concat (map Ugrams corpus)),
            BCOUNTS = Counter (concat (map Bgrams corpus)), phoneme_set = r, P = Pd\<rparr>"
    by auto
  from Phoneme_LM_new_result [of \<sigma> "[]" r unk]
  have b: "\<exists>Pd. snd (Phoneme_LM_new \<sigma> [] r unk) =
       Inr \<lparr>UCOUNTS = [], BCOUNTS = [], phoneme_set = r, P = Pd\<rparr>"
    by auto
  have c: "Counter_get (Counter (concat (map Bgrams corpus))) (x, y) =
       (\<Sum>w\<leftarrow>corpus. card {i. 1 \<le> i \<and> i < length w \<and> w ! (i - 1) = x \<and> w ! i = y})"
    by (simp only: Counter_get_Counter count_list_concat map_map comp_def count_list_Bgrams)
  have d: "Counter_get (Counter (concat (map Ugrams corpus))) x =
       (\<Sum>w\<leftarrow>corpus. card {i. 1 \<le> i \<and> i < length w \<and> w ! (i - 1) = x})"
    by (simp only: Counter_get_Counter count_list_concat map_map comp_def count_list_Ugrams)
  have e: "Counter_get (Counter (concat (map Ugrams corpus))) x = (\<Sum>w\<leftarrow>corpus. count_list (butlast w) x)"
    by (simp only: Counter_get_Counter count_list_concat map_map comp_def Ugrams_butlast)
  from a b c d e show ?thesis by blast
qed

lemma Absdisc_new_store:
  "fst (Absdisc_Phoneme_LM_new \<sigma> corpus r unk dv) = \<sigma>(r := Dlist.insert ''$'' (\<sigma> r))"
  by (simp add: Absdisc_Phoneme_LM_new_def Phoneme_LM_init_eq split: sum.splits)

text \<open>
  Claim C5, as amended. Construction leaves the caller's set object unchanged only when
  the additive model is built with \<open>unk = False\<close>. With \<open>unk = True\<close>, for the additive
  and for the absolute-discounting model, the caller's set object afterwards holds its
  former symbols and \<^verbatim>\<open>'$'\<close>; no other set object of the store changes. The corpus is
  only read.
\<close>

theorem construction_adds_unknown_to_callers_set:
  "fst (Phoneme_LM_new \<sigma> corpus r False) = \<sigma>
   \<and> fst (Phoneme_LM_new \<sigma> corpus r True) = \<sigma>(r := Dlist.insert ''$'' (\<sigma> r))
   \<and> fst (Absdisc_Phoneme_LM_new \<sigma> corpus r True dv) = \<sigma>(r := Dlist.insert ''$'' (\<sigma> r))
   \<and> set (list_of_dlist ((\<sigma>(r := Dlist.insert ''$'' (\<sigma> r))) r)) = insert ''$'' (set (list_of_dlist (\<sigma> r)))"
  by (simp add: Phoneme_LM_new_def Phoneme_LM_init_eq Absdisc_new_store)

text \<open>
  Claim C5 as stated fails: after the additive model is built with \<open>unk = True\<close> from
  the vocabulary \<open>{a, b, #, @}\<close>, the caller's set contains \<^verbatim>\<open>'$'\<close>, which it did not
  contain before.
\<close>

theorem construction_changes_vocabulary_counterexample:
  "''$'' \<in> set (list_of_dlist (fst (Phoneme_LM_new (store_of (Dlist [''a'', ''b'', ''#'', ''@'']))
          [[''#'', ''a'', ''b'', ''@'']] 0 True) 0))
   \<and> ''$'' \<notin> set (list_of_dlist (store_of (Dlist [''a'', ''b'', ''#'', ''@'']) 0))"
  by (simp add: Phoneme_LM_new_def Phoneme_LM_init_eq store_of_def)

section \<open>The absolute-discounting estimator\<close>

lemma sum_list_ones [simp]: "sum_list (map (\<lambda>p. Suc 0) xs) = length xs"
  by (induction xs) simp_all

lemma uniP_Inr:
  assumes "sum_list (map snd U) \<noteq> 0" and "L \<noteq> 0"
  shows "uniP dv U L c = Inr (uniP_value dv U L c)"
  using assms by (simp add: uniP_def uniP_value_def Let_def py_div_def del: length_filter_map sum_list_eq_0_iff)

lemma uniP_Inl:
  assumes "sum_list (map snd U) = 0"
  shows "uniP dv U L c = Inl ZeroDivisionError"
  by (simp only: uniP_def Let_def assms of_nat_0 py_div_zero andThen_Inl)

lemma absdisc_unseen_result:
  assumes "sum_list (map snd U) \<noteq> 0" and "L \<noteq> 0"
  shows "\<exists>Pd'. absdisc_unseen dv U L ph1 xs Pd = Inr Pd' \<and>
           (\<forall>h c. P_getitem Pd' h c =
              (if h = ph1 \<and> c \<in> set xs then Inr (uniP_value dv U L c) else P_getitem Pd h c))"
proof (induction xs arbitrary: Pd)
  case Nil
  show ?case by simp
next
  case (Cons ph2 rest)
  from Cons.IH [of "P_setitem Pd ph1 ph2 (uniP_value dv U L ph2)"]
  obtain Pd' where Pd': "absdisc_unseen dv U L ph1 rest (P_setitem Pd ph1 ph2 (uniP_value dv U L ph2)) = Inr Pd'"
    and get: "\<forall>h c. P_getitem Pd' h c =
              (if h = ph1 \<and> c \<in> set rest then Inr (uniP_value dv U L c)
               else P_getitem (P_setitem Pd ph1 ph2 (uniP_value dv U L ph2)) h c)"
    by blast
  have "absdisc_unseen dv U L ph1 (ph2 # rest) Pd = Inr Pd'"
    using Pd' by (simp add: uniP_Inr [OF assms])
  moreover have "\<forall>h c. P_getitem Pd' h c =
              (if h = ph1 \<and> c \<in> set (ph2 # rest) then Inr (uniP_value dv U L c) else P_getitem Pd h c)"
    using get by (auto simp: P_getitem_setitem)
  ultimately show ?case by blast
qed

lemma absdisc_seen_result:
  assumes "sum_list (map snd U) \<noteq> 0" and "L \<noteq> 0" and "Nh \<noteq> 0"
  shows "\<exists>Pd'. absdisc_seen dv U B L ph1 Nh Zh xs Pd = Inr Pd' \<and>
           (\<forall>h c. P_getitem Pd' h c =
              (if h = ph1 \<and> c \<in> set xs
               then Inr (max (real (Counter_get B (ph1, c)) - dv) 0 / real Nh + Zh * uniP_value dv U L c)
               else P_getitem Pd h c))"
proof (induction xs arbitrary: Pd)
  case Nil
  show ?case by simp
next
  case (Cons ph2 rest)
  let ?v = "max (real (Counter_get B (ph1, ph2)) - dv) 0 / real Nh + Zh * uniP_value dv U L ph2"
  from Cons.IH [of "P_setitem Pd ph1 ph2 ?v"]
  obtain Pd' where Pd': "absdisc_seen dv U B L ph1 Nh Zh rest (P_setitem Pd ph1 ph2 ?v) = Inr Pd'"
    and get: "\<forall>h c. P_getitem Pd' h c =
              (if h = ph1 \<and> c \<in> set rest
               then Inr (max (real (Counter_get B (ph1, c)) - dv) 0 / real Nh + Zh * uniP_value dv U L c)
               else P_getitem (P_setitem Pd ph1 ph2 ?v) h c)"
    by blast
  have "absdisc_seen dv U B L ph1 Nh Zh (ph2 # rest) Pd = Inr Pd'"
    using Pd' assms(3) by (simp add: uniP_Inr [OF assms(1,2)] py_div_def)
  moreover have "\<forall>h c. P_getitem Pd' h c =
              (if h = ph1 \<and> c \<in> set (ph2 # rest)
               then Inr (max (real (Counter_get B (ph1, c)) - dv) 0 / real Nh + Zh * uniP_value dv U L c)
               else P_getitem Pd h c)"
    using get by (auto simp: P_getitem_setitem)
  ultimately show ?case by blast
qed

lemma absdisc_outer_result:
  assumes "sum_list (map snd U) \<noteq> 0" and "L \<noteq> 0"
  shows "\<exists>Pd'. absdisc_outer dv U B L V hs Pd = Inr Pd' \<and>
           (\<forall>h c. P_getitem Pd' h c =
              (if h \<in> set hs \<and> c \<in> set V then Inr (absdisc_value dv U B L h c) else P_getitem Pd h c))"
proof (induction hs arbitrary: Pd)
  case Nil
  show ?case by simp
next
  case (Cons ph1 rest)
  have "\<exists>Pd1. (if Counter_get U ph1 = 0 then absdisc_unseen dv U L ph1 V Pd
                else absdisc_seen dv U B L ph1 (Counter_get U ph1)
                       (dv / real (Counter_get U ph1) *
                          real (length (filter (\<lambda>(p1, p2). p1 = ph1) (map fst B)))) V Pd) = Inr Pd1 \<and>
          (\<forall>h c. P_getitem Pd1 h c =
              (if h = ph1 \<and> c \<in> set V then Inr (absdisc_value dv U B L ph1 c) else P_getitem Pd h c))"
  proof (cases "Counter_get U ph1 = 0")
    case True
    from absdisc_unseen_result [OF assms, of dv ph1 V Pd]
    obtain Pd1 where "absdisc_unseen dv U L ph1 V Pd = Inr Pd1"
      and "\<forall>h c. P_getitem Pd1 h c =
              (if h = ph1 \<and> c \<in> set V then Inr (uniP_value dv U L c) else P_getitem Pd h c)"
      by blast
    with True show ?thesis
      by (intro exI [of _ Pd1]) (simp add: absdisc_value_def)
  next
    case False
    let ?Zh = "dv / real (Counter_get U ph1) *
                          real (length (filter (\<lambda>(p1, p2). p1 = ph1) (map fst B)))"
    from absdisc_seen_result [OF assms False, of dv B ph1 ?Zh V Pd]
    obtain Pd1 where "absdisc_seen dv U B L ph1 (Counter_get U ph1) ?Zh V Pd = Inr Pd1"
      and "\<forall>h c. P_getitem Pd1 h c =
              (if h = ph1 \<and> c \<in> set V
               then Inr (max (real (Counter_get B (ph1, c)) - dv) 0 / real (Counter_get U ph1) +
                         ?Zh * uniP_value dv U L c)
               else P_getitem Pd h c)"
      by blast
    with False show ?thesis
      by (intro exI [of _ Pd1]) (simp add: absdisc_value_def)
  qed
  then obtain Pd1 where Pd1: "(if Counter_get U ph1 = 0 then absdisc_unseen dv U L ph1 V Pd
                else absdisc_seen dv U B L ph1 (Counter_get U ph1)
                       (dv / real (Counter_get U ph1) *
                          real (length (filter (\<lambda>(p1, p2). p1 = ph1) (map fst B)))) V Pd) = Inr Pd1"
    and get1: "\<forall>h c. P_getitem Pd1 h c =
              (if h = ph1 \<and> c \<in> set V then Inr (absdisc_value dv U B L ph1 c) else P_getitem Pd h c)"
    by blast
  from Cons.IH [of Pd1]
  obtain Pd' where Pd': "absdisc_outer dv U B L V rest Pd1 = Inr Pd'"
    and get: "\<forall>h c. P_getitem Pd' h c =
              (if h \<in> set rest \<and> c \<in> set V then Inr (absdisc_value dv U B L h c) else P_getitem Pd1 h c)"
    by blast
  have "absdisc_outer dv U B L V (ph1 # rest) Pd = Inr Pd'"
    using Pd1 Pd' by (simp add: Let_def py_div_def split: if_splits)
  moreover have "\<forall>h c. P_getitem Pd' h c =
              (if h \<in> set (ph1 # rest) \<and> c \<in> set V then Inr (absdisc_value dv U B L h c) else P_getitem Pd h c)"
    using get get1 by auto
  ultimately show ?case by blast
qed

lemma Counter_get_zero_mass:
  assumes "sum_list (map snd U) = 0"
  shows "Counter_get U h = 0"
proof (cases "map_of U h")
  case None
  then show ?thesis by (simp add: Counter_get_def)
next
  case (Some n)
  then have "n \<in> set (map snd U)" by (force dest: map_of_SomeD)
  with assms have "n = 0" by auto
  with Some show ?thesis by (simp add: Counter_get_def)
qed

lemma absdisc_outer_zero_mass:
  assumes "sum_list (map snd U) = 0" and "V \<noteq> []"
  shows "absdisc_outer dv U B L V (ph1 # rest) Pd = Inl ZeroDivisionError"
proof -
  from assms(2) obtain c cs where V: "V = c # cs" by (cases V) auto
  show ?thesis
    by (simp add: Counter_get_zero_mass [OF assms(1)] V uniP_Inl [OF assms(1)])
qed

lemma Absdisc_estimate_probs_result:
  assumes "sum_list (map snd (UCOUNTS self)) \<noteq> 0" and "list_of_dlist (\<sigma> (phoneme_set self)) \<noteq> []"
  shows "\<exists>Pd. Absdisc_estimate_probs \<sigma> self = Inr (self\<lparr>P := Pd\<rparr>) \<and>
     (\<forall>h c. P_getitem Pd h c =
        (if h \<in> set (list_of_dlist (\<sigma> (phoneme_set self))) \<and> c \<in> set (list_of_dlist (\<sigma> (phoneme_set self)))
         then Inr (absdisc_value (d self) (UCOUNTS self) (BCOUNTS self)
                     (length (list_of_dlist (\<sigma> (phoneme_set self)))) h c)
         else Inl KeyError))"
proof -
  let ?V = "list_of_dlist (\<sigma> (phoneme_set self))"
  from assms(2) have L: "length ?V \<noteq> 0" by simp
  from absdisc_outer_result [OF assms(1) L, of "d self" "BCOUNTS self" ?V ?V "[]"]
  obtain Pd where "absdisc_outer (d self) (UCOUNTS self) (BCOUNTS self) (length ?V) ?V ?V [] = Inr Pd"
    and "\<forall>h c. P_getitem Pd h c =
        (if h \<in> set ?V \<and> c \<in> set ?V
         then Inr (absdisc_value (d self) (UCOUNTS self) (BCOUNTS self) (length ?V) h c) else Inl KeyError)"
    by auto
  then show ?thesis
    by (auto simp: Absdisc_estimate_probs_def Let_def)
qed

lemma Absdisc_estimate_probs_zero_mass:
  assumes "sum_list (map snd (UCOUNTS self)) = 0" and "list_of_dlist (\<sigma> (phoneme_set self)) \<noteq> []"
  shows "Absdisc_estimate_probs \<sigma> self = Inl ZeroDivisionError"
proof -
  from assms(2) obtain h hs where V: "list_of_dlist (\<sigma> (phoneme_set self)) = h # hs"
    by (cases "list_of_dlist (\<sigma> (phoneme_set self))") auto
  have "absdisc_outer (d self) (UCOUNTS self) (BCOUNTS self) (length (h # hs)) (h # hs) (h # hs) [] =
        Inl ZeroDivisionError"
    by (rule absdisc_outer_zero_mass [OF assms(1)]) simp
  then show ?thesis
    by (simp add: Absdisc_estimate_probs_def Let_def V)
qed

lemma count_list_pos_iff: "0 < count_list xs s \<longleftrightarrow> s \<in> set xs"
  by (induction xs) auto

lemma positive_counts_set: "{s. 0 < count_list xs s} = set xs"
  by (simp add: count_list_pos_iff)

lemma positive_keys_count:
  "filter (\<lambda>p. 0 < count_list xs p) (map fst (Counter xs)) = map fst (Counter xs)"
  using positive_keys_Counter [of xs] by simp

lemma uniP_value_Counter:
  "uniP_value dv (Counter Ul) L c = discounted_unigram dv (Counter Ul) L c"
  by (simp add: uniP_value_def discounted_unigram_def positive_keys_count length_keys_Counter
      positive_counts_set Let_def del: length_filter_map)

lemma nPlus_h_Counter:
  "length (filter (\<lambda>(p1, p2). p1 = h) (map fst (Counter Bl))) = card {c'. 0 < count_list Bl (h, c')}"
proof -
  have "distinct (filter (\<lambda>(p1, p2). p1 = h) (map fst (Counter Bl)))"
    by (rule distinct_filter) simp
  then have "length (filter (\<lambda>(p1, p2). p1 = h) (map fst (Counter Bl))) =
             card (set (filter (\<lambda>(p1, p2). p1 = h) (map fst (Counter Bl))))"
    by (simp only: distinct_card)
  also have "set (filter (\<lambda>(p1, p2). p1 = h) (map fst (Counter Bl))) = Pair h ` {c'. (h, c') \<in> set Bl}"
  proof -
    have "set (map fst (Counter Bl)) = set Bl" using keys_Counter [of Bl] by simp
    then show ?thesis by (auto simp del: set_map)
  qed
  also have "card (Pair h ` {c'. (h, c') \<in> set Bl}) = card {c'. (h, c') \<in> set Bl}"
    by (rule card_image) (simp add: inj_on_def)
  also have "{c'. (h, c') \<in> set Bl} = {c'. 0 < count_list Bl (h, c')}"
    by (simp add: count_list_pos_iff)
  finally show ?thesis .
qed

lemma absdisc_value_Counter:
  "absdisc_value dv (Counter Ul) (Counter Bl) L h c = absolute_discounting dv (Counter Ul) (Counter Bl) L h c"
  by (simp add: absdisc_value_def absolute_discounting_def uniP_value_Counter nPlus_h_Counter Let_def
      del: length_filter_map)

lemma List_insert_nonempty [simp]: "List.insert x xs \<noteq> []"
  by (auto simp: List.insert_def)

lemma insert_unknown_nonempty: "list_of_dlist (Dlist.insert ''$'' S) \<noteq> []"
  by simp

lemma Absdisc_new_no_bigrams:
  assumes "concat (map Ugrams corpus) = []"
  shows "Absdisc_Phoneme_LM_new \<sigma> corpus r unk dv =
           (\<sigma>(r := Dlist.insert ''$'' (\<sigma> r)), Inl ZeroDivisionError)"
proof -
  let ?\<sigma> = "\<sigma>(r := Dlist.insert ''$'' (\<sigma> r))"
  let ?self = "\<lparr>UCOUNTS = Counter (concat (map Ugrams corpus)),
                 BCOUNTS = Counter (concat (map Bgrams corpus)),
                 phoneme_set = r, P = [], d = dv\<rparr>"
  have "Absdisc_estimate_probs ?\<sigma> ?self = Inl ZeroDivisionError"
    by (rule Absdisc_estimate_probs_zero_mass) (simp_all add: assms insert_unknown_nonempty)
  then show ?thesis
    by (simp add: Absdisc_Phoneme_LM_new_def Phoneme_LM_init_eq)
qed

lemma Absdisc_new_result:
  assumes "concat (map Ugrams corpus) \<noteq> []"
  shows "\<exists>Pd. Absdisc_Phoneme_LM_new \<sigma> corpus r unk dv =
           (\<sigma>(r := Dlist.insert ''$'' (\<sigma> r)),
            Inr \<lparr>UCOUNTS = Counter (concat (map Ugrams corpus)),
                 BCOUNTS = Counter (concat (map Bgrams corpus)),
                 phoneme_set = r, P = Pd, d = dv\<rparr>) \<and>
     (\<forall>h c. P_getitem Pd h c =
        (if h \<in> set (list_of_dlist (Dlist.insert ''$'' (\<sigma> r))) \<and> c \<in> set (list_of_dlist (Dlist.insert ''$'' (\<sigma> r)))
         then Inr (absolute_discounting dv (Counter (concat (map Ugrams corpus)))
                     (Counter (concat (map Bgrams corpus)))
                     (length (list_of_dlist (Dlist.insert ''$'' (\<sigma> r)))) h c)
         else Inl KeyError))"
proof -
  let ?\<sigma> = "\<sigma>(r := Dlist.insert ''$'' (\<sigma> r))"
  let ?self = "\<lambda>Pd. \<lparr>UCOUNTS = Counter (concat (map Ugrams corpus)),
                 BCOUNTS = Counter (concat (map Bgrams corpus)),
                 phoneme_set = r, P = Pd, d = dv\<rparr>"
  have mass: "sum_list (map snd (UCOUNTS (?self Pd))) \<noteq> 0" for Pd
    using assms by simp
  have voc: "list_of_dlist (?\<sigma> (phoneme_set (?self Pd))) \<noteq> []" for Pd
    by (simp add: insert_unknown_nonempty)
  from Absdisc_estimate_probs_result [where self = "?self []" and \<sigma> = ?\<sigma>, OF mass voc]
  obtain Pd1 where first: "Absdisc_estimate_probs ?\<sigma> (?self []) = Inr (?self Pd1)"
    by auto
  from Absdisc_estimate_probs_result [where self = "?self Pd1" and \<sigma> = ?\<sigma>, OF mass voc]
  obtain Pd2 where second: "Absdisc_estimate_probs ?\<sigma> (?self Pd1) = Inr (?self Pd2)"
    and get: "\<forall>h c. P_getitem Pd2 h c =
        (if h \<in> set (list_of_dlist (Dlist.insert ''$'' (\<sigma> r))) \<and> c \<in> set (list_of_dlist (Dlist.insert ''$'' (\<sigma> r)))
         then Inr (absdisc_value dv (Counter (concat (map Ugrams corpus)))
                     (Counter (concat (map Bgrams corpus)))
                     (length (list_of_dlist (Dlist.insert ''$'' (\<sigma> r)))) h c)
         else Inl KeyError)"
    by auto
  have "Absdisc_Phoneme_LM_new \<sigma> corpus r unk dv = (?\<sigma>, Inr (?self Pd2))"
    using first second by (simp add: Absdisc_Phoneme_LM_new_def Phoneme_LM_init_eq)
  with get show ?thesis
    by (intro exI [of _ Pd2]) (simp add: absdisc_value_Counter)
qed

section \<open>Normalisation\<close>

lemma corpus_Ugrams_symbols:
  assumes "\<forall>w \<in> set corpus. set w \<subseteq> S"
  shows "set (concat (map Ugrams corpus)) \<subseteq> S"
proof -
  have "set (concat (map Ugrams corpus)) = fst ` set (concat (map Bgrams corpus))"
    by (simp only: corpus_Ugrams_Bgrams set_map)
  also have "\<dots> \<subseteq> S"
    using assms Bgrams_symbols by fastforce
  finally show ?thesis .
qed

lemma discounted_unigram_sum:
  assumes "distinct V" and "V \<noteq> []" and "set Ul \<subseteq> set V" and "Ul \<noteq> []"
    and "0 \<le> dv" and "dv \<le> 1"
  shows "sum_list (map (discounted_unigram dv (Counter Ul) (length V)) V) = 1"
proof -
  let ?N = "real (length Ul)" and ?L = "real (length V)" and ?n = "real (card (set Ul))"
  from assms(2,4) have N: "?N \<noteq> 0" and L: "?L \<noteq> 0" by simp_all
  have pos: "{c \<in> set V. 0 < count_list Ul c} = set Ul"
    using assms(3) by (auto simp: count_list_pos_iff)
  have mass: "(\<Sum>c\<in>set V. count_list Ul c) = length Ul"
    by (rule sum_count_set [OF assms(3)]) simp
  have discounted: "(\<Sum>c\<in>set V. max (real (count_list Ul c) - dv) 0) = ?N - dv * ?n"
    using discount_sum [of "set V" dv "count_list Ul"] assms(5,6) by (simp add: pos mass)
  have "sum_list (map (discounted_unigram dv (Counter Ul) (length V)) V) =
        (\<Sum>c\<in>set V. max (real (count_list Ul c) - dv) 0 / ?N + dv / ?N * ?n * (1 / ?L))"
    using assms(1)
    by (simp add: sum_list_distinct_conv_sum_set discounted_unigram_def Let_def positive_counts_set)
  also have "\<dots> = (\<Sum>c\<in>set V. max (real (count_list Ul c) - dv) 0) / ?N
                   + real (card (set V)) * (dv / ?N * ?n * (1 / ?L))"
    by (simp only: sum.distrib sum_divide_distrib sum_constant)
  also have "\<dots> = (?N - dv * ?n) / ?N + ?L * (dv / ?N * ?n * (1 / ?L))"
    using assms(1) by (simp only: discounted distinct_card)
  also have "\<dots> = 1"
    using N L by (simp add: field_simps)
  finally show ?thesis .
qed

lemma absolute_discounting_sum:
  assumes "distinct V" and "V \<noteq> []" and "snd ` set Bl \<subseteq> set V" and "set (map fst Bl) \<subseteq> set V"
    and "Bl \<noteq> []" and "0 \<le> dv" and "dv \<le> 1"
  shows "sum_list (map (absolute_discounting dv (Counter (map fst Bl)) (Counter Bl) (length V) h) V) = 1"
proof (cases "count_list (map fst Bl) h = 0")
  case True
  from assms(5) have ne: "map fst Bl \<noteq> []" by simp
  have "absolute_discounting dv (Counter (map fst Bl)) (Counter Bl) (length V) h =
        discounted_unigram dv (Counter (map fst Bl)) (length V)"
    by (rule ext) (simp add: absolute_discounting_def True Let_def)
  then show ?thesis
    by (simp only: discounted_unigram_sum [OF assms(1,2,4) ne assms(6,7)])
next
  case False
  let ?Nh = "real (count_list (map fst Bl) h)"
  let ?nh = "real (card {c'. 0 < count_list Bl (h, c')})"
  let ?u = "discounted_unigram dv (Counter (map fst Bl)) (length V)"
  from False have Nh: "?Nh \<noteq> 0" by simp
  from assms(5) have ne: "map fst Bl \<noteq> []" by simp
  have unigrams: "(\<Sum>c\<in>set V. ?u c) = 1"
    using discounted_unigram_sum [OF assms(1,2,4) ne assms(6,7)] assms(1)
    by (simp add: sum_list_distinct_conv_sum_set)
  have pos: "{c \<in> set V. 0 < count_list Bl (h, c)} = {c'. 0 < count_list Bl (h, c')}"
    using assms(3) by (force simp: count_list_pos_iff)
  have discounted: "(\<Sum>c\<in>set V. max (real (count_list Bl (h, c)) - dv) 0) = ?Nh - dv * ?nh"
    using discount_sum [of "set V" dv "\<lambda>c. count_list Bl (h, c)"] assms(6,7)
      count_row_sum [of "set V" Bl h] assms(3)
    by (simp add: pos)
  have "sum_list (map (absolute_discounting dv (Counter (map fst Bl)) (Counter Bl) (length V) h) V) =
        (\<Sum>c\<in>set V. max (real (count_list Bl (h, c)) - dv) 0 / ?Nh + dv / ?Nh * ?nh * ?u c)"
    using assms(1) False
    by (simp add: sum_list_distinct_conv_sum_set absolute_discounting_def Let_def)
  also have "\<dots> = (\<Sum>c\<in>set V. max (real (count_list Bl (h, c)) - dv) 0) / ?Nh
                   + dv / ?Nh * ?nh * (\<Sum>c\<in>set V. ?u c)"
    by (simp only: sum.distrib sum_divide_distrib sum_distrib_left)
  also have "\<dots> = (?Nh - dv * ?nh) / ?Nh + dv / ?Nh * ?nh"
    by (simp only: discounted unigrams mult_1_right)
  also have "\<dots> = 1"
    using Nh by (simp add: field_simps)
  finally show ?thesis .
qed

lemma P_sum_from_row:
  assumes "\<forall>c \<in> set V. P_getitem Pd h c = Inr (f c)" and "sum_list (map f V) = 1"
  shows "P_sum_from Pd h V 0 = Inr 1"
  using P_sum_from_result [OF assms(1), of 0] assms(2) by simp

lemma additive_normalised:
  assumes new: "Phoneme_LM_new \<sigma> corpus r unk = (\<sigma>', Inr m)"
    and voc: "\<forall>w \<in> set corpus. set w \<subseteq> set (list_of_dlist (\<sigma>' r))"
  shows "(\<forall>h \<in> set (list_of_dlist (\<sigma>' r)). P_sum_from (P m) h (list_of_dlist (\<sigma>' r)) 0 = Inr 1)
       \<and> test \<sigma>' m = Inr ()"
proof -
  let ?V = "list_of_dlist (\<sigma>' r)"
  let ?Bl = "concat (map Bgrams corpus)"
  from Phoneme_LM_new_result [of \<sigma> corpus r unk] new
  have ref: "phoneme_set m = r"
    and get: "\<forall>h c. P_getitem (P m) h c =
        (if h \<in> set ?V \<and> c \<in> set ?V
         then Inr (add_one (Counter (map fst ?Bl)) (Counter ?Bl) (length ?V) h c)
         else Inl KeyError)"
    by (auto simp: corpus_Ugrams_Bgrams)
  have rows: "P_sum_from (P m) h ?V 0 = Inr 1" if h: "h \<in> set ?V" for h
  proof (rule P_sum_from_row)
    show "\<forall>c \<in> set ?V. P_getitem (P m) h c =
            Inr (add_one (Counter (map fst ?Bl)) (Counter ?Bl) (length ?V) h c)"
      using get h by simp
    from h have "?V \<noteq> []" by auto
    then show "sum_list (map (add_one (Counter (map fst ?Bl)) (Counter ?Bl) (length ?V) h) ?V) = 1"
      by (intro additive_row_sum corpus_Bgrams_symbols voc) simp_all
  qed
  then have "test \<sigma>' m = Inr ()"
    by (simp add: test_def ref test_loop_ok)
  with rows show ?thesis by blast
qed

lemma absdisc_normalised:
  assumes new: "Absdisc_Phoneme_LM_new \<sigma> corpus r unk dv = (\<sigma>', Inr m)"
    and dv: "0 \<le> dv" "dv \<le> 1"
    and voc: "\<forall>w \<in> set corpus. set w \<subseteq> set (list_of_dlist (\<sigma>' r))"
  shows "(\<forall>h \<in> set (list_of_dlist (\<sigma>' r)). P_sum_from (P m) h (list_of_dlist (\<sigma>' r)) 0 = Inr 1)
       \<and> test \<sigma>' m = Inr ()"
proof -
  let ?V = "list_of_dlist (\<sigma>' r)"
  let ?Bl = "concat (map Bgrams corpus)"
  have seen: "concat (map Ugrams corpus) \<noteq> []"
    using Absdisc_new_no_bigrams [of corpus \<sigma> r unk dv] new by auto
  then have Bl: "?Bl \<noteq> []" by (simp add: corpus_Ugrams_Bgrams)
  from Absdisc_new_result [OF seen, of \<sigma> r unk dv] new
  have ref: "phoneme_set m = r"
    and get: "\<forall>h c. P_getitem (P m) h c =
        (if h \<in> set ?V \<and> c \<in> set ?V
         then Inr (absolute_discounting dv (Counter (map fst ?Bl)) (Counter ?Bl) (length ?V) h c)
         else Inl KeyError)"
    by (auto simp: corpus_Ugrams_Bgrams)
  have rows: "P_sum_from (P m) h ?V 0 = Inr 1" if h: "h \<in> set ?V" for h
  proof (rule P_sum_from_row)
    show "\<forall>c \<in> set ?V. P_getitem (P m) h c =
            Inr (absolute_discounting dv (Counter (map fst ?Bl)) (Counter ?Bl) (length ?V) h c)"
      using get h by simp
    from h have ne: "?V \<noteq> []" by auto
    have fsts: "set (map fst ?Bl) \<subseteq> set ?V"
      using corpus_Ugrams_symbols [OF voc] by (simp only: corpus_Ugrams_Bgrams)
    show "sum_list (map (absolute_discounting dv (Counter (map fst ?Bl)) (Counter ?Bl) (length ?V) h) ?V) = 1"
      by (rule absolute_discounting_sum [OF _ ne corpus_Bgrams_symbols [OF voc] fsts Bl dv]) simp
  qed
  then have "test \<sigma>' m = Inr ()"
    by (simp add: test_def ref test_loop_ok)
  with rows show ?thesis by blast
qed

subsection \<open>A small corpus\<close>

lemma example_Ugrams: "concat (map Ugrams [[''a'', ''b'']]) = [''a'']"
  by (simp add: Ugrams_def upt_rec)

lemma example_Bgrams: "concat (map Bgrams [[''a'', ''b'']]) = [(''a'', ''b'')]"
  by (simp add: Bgrams_def upt_rec)

section \<open>Claims on the fitted models\<close>

text \<open>
  Claim C1. For a model fitted by either estimator from a corpus all of whose symbols are
  in the model's vocabulary (for absolute discounting with a discount between 0 and 1, as
  the data model requires), the probabilities \<open>P(c | h)\<close> summed over the vocabulary give
  exactly 1 for every history \<open>h\<close> of the vocabulary, so they are within \<open>1e-10\<close> of 1 and
  the validator \<^verbatim>\<open>test\<close> returns without raising. The sums are sums of reals.
\<close>

theorem probability_mass_sums_to_one:
  "(Phoneme_LM_new \<sigma> corpus r unk = (\<sigma>\<^sub>1, Inr m\<^sub>1)
      \<and> (\<forall>w \<in> set corpus. set w \<subseteq> set (list_of_dlist (\<sigma>\<^sub>1 r)))
    \<longrightarrow> (\<forall>h \<in> set (list_of_dlist (\<sigma>\<^sub>1 r)).
            P_sum_from (P m\<^sub>1) h (list_of_dlist (\<sigma>\<^sub>1 r)) 0 = Inr 1)
        \<and> test \<sigma>\<^sub>1 m\<^sub>1 = Inr ())
   \<and> (Absdisc_Phoneme_LM_new \<sigma> corpus r unk dv = (\<sigma>\<^sub>2, Inr m\<^sub>2) \<and> 0 \<le> dv \<and> dv \<le> 1
      \<and> (\<forall>w \<in> set corpus. set w \<subseteq> set (list_of_dlist (\<sigma>\<^sub>2 r)))
    \<longrightarrow> (\<forall>h \<in> set (list_of_dlist (\<sigma>\<^sub>2 r)).
            P_sum_from (P m\<^sub>2) h (list_of_dlist (\<sigma>\<^sub>2 r)) 0 = Inr 1)
        \<and> test \<sigma>\<^sub>2 m\<^sub>2 = Inr ())"
  using additive_normalised [of \<sigma> corpus r unk \<sigma>\<^sub>1 m\<^sub>1]
    absdisc_normalised [of \<sigma> corpus r unk dv \<sigma>\<^sub>2 m\<^sub>2]
  by blast

theorem probability_mass_sums_to_one_witness:
  "(\<exists>m. Phoneme_LM_new (store_of (Dlist [''a'', ''b''])) [[''a'', ''b'']] 0 False =
          (store_of (Dlist [''a'', ''b'']), Inr m)
        \<and> P_sum_from (P m) ''a'' [''a'', ''b''] 0 = Inr 1
        \<and> test (store_of (Dlist [''a'', ''b''])) m = Inr ())
   \<and> (\<exists>m. Absdisc_Phoneme_LM_new (store_of (Dlist [''a'', ''b''])) [[''a'', ''b'']] 0 False (1 / 2) =
          ((store_of (Dlist [''a'', ''b'']))(0 := Dlist.insert ''$'' (Dlist [''a'', ''b''])), Inr m)
        \<and> P_sum_from (P m) ''a'' [''$'', ''a'', ''b''] 0 = Inr 1
        \<and> test ((store_of (Dlist [''a'', ''b'']))(0 := Dlist.insert ''$'' (Dlist [''a'', ''b'']))) m = Inr ())"
proof -
  let ?\<sigma> = "store_of (Dlist [''a'', ''b''])"
  let ?\<sigma>' = "?\<sigma>(0 := Dlist.insert ''$'' (Dlist [''a'', ''b'']))"
  let ?corpus = "[[''a'', ''b'']]"
  from Phoneme_LM_new_result [of ?\<sigma> ?corpus 0 False]
  obtain m\<^sub>1 where new1: "Phoneme_LM_new ?\<sigma> ?corpus 0 False = (?\<sigma>, Inr m\<^sub>1)"
    by auto
  have voc1: "\<forall>w \<in> set ?corpus. set w \<subseteq> set (list_of_dlist (?\<sigma> 0))"
    by (simp add: store_of_def)
  have "concat (map Ugrams ?corpus) \<noteq> []"
    by (simp only: example_Ugrams) simp
  from Absdisc_new_result [OF this, of ?\<sigma> 0 False "1 / 2"]
  obtain m\<^sub>2 where new2: "Absdisc_Phoneme_LM_new ?\<sigma> ?corpus 0 False (1 / 2) = (?\<sigma>', Inr m\<^sub>2)"
    by (auto simp: store_of_def)
  have voc2: "\<forall>w \<in> set ?corpus. set w \<subseteq> set (list_of_dlist (?\<sigma>' 0))"
    by simp
  have dv: "(0::real) \<le> 1 / 2" "(1::real) / 2 \<le> 1" by simp_all
  from probability_mass_sums_to_one [of ?\<sigma> ?corpus 0 False ?\<sigma> m\<^sub>1 "1 / 2" ?\<sigma>' m\<^sub>2]
    new1 voc1 new2 voc2 dv
  have "(\<forall>h \<in> set (list_of_dlist (?\<sigma> 0)). P_sum_from (P m\<^sub>1) h (list_of_dlist (?\<sigma> 0)) 0 = Inr 1)
        \<and> test ?\<sigma> m\<^sub>1 = Inr ()"
    and "(\<forall>h \<in> set (list_of_dlist (?\<sigma>' 0)). P_sum_from (P m\<^sub>2) h (list_of_dlist (?\<sigma>' 0)) 0 = Inr 1)
        \<and> test ?\<sigma>' m\<^sub>2 = Inr ()"
    by blast+
  then have "P_sum_from (P m\<^sub>1) ''a'' [''a'', ''b''] 0 = Inr 1 \<and> test ?\<sigma> m\<^sub>1 = Inr ()"
    and "P_sum_from (P m\<^sub>2) ''a'' [''$'', ''a'', ''b''] 0 = Inr 1 \<and> test ?\<sigma>' m\<^sub>2 = Inr ()"
    by (simp_all add: store_of_def)
  with new1 new2 show ?thesis by blast
qed

text \<open>
  Claim C2. In a model fitted by the absolute-discounting estimator, for a history \<open>h\<close> of
  the vocabulary without unigram count, \<open>P(c | h) = max(count(c) - d, 0)/N + Z_uni * (1/L)\<close>;
  for a history with \<open>N_h > 0\<close>,
  \<open>P(c | h) = max(count(h,c) - d, 0)/N_h + Z_h * uniP(c)\<close> with \<open>uniP\<close> the same
  discounted-unigram value; missing counts are 0. Hence two histories without unigram
  count have identical rows. The tables are the counts of the corpus and \<open>N\<close> is positive.
\<close>

theorem absolute_discounting_formulas:
  assumes "Absdisc_Phoneme_LM_new \<sigma> corpus r unk dv = (\<sigma>', Inr m)"
  shows "(\<forall>h \<in> set (list_of_dlist (\<sigma>' r)). \<forall>c \<in> set (list_of_dlist (\<sigma>' r)).
            (Counter_get (UCOUNTS m) h = 0 \<longrightarrow>
               P_getitem (P m) h c =
                 Inr (discounted_unigram dv (UCOUNTS m) (length (list_of_dlist (\<sigma>' r))) c))
          \<and> (0 < Counter_get (UCOUNTS m) h \<longrightarrow>
               P_getitem (P m) h c =
                 Inr (max (real (Counter_get (BCOUNTS m) (h, c)) - dv) 0 / real (Counter_get (UCOUNTS m) h)
                      + dv / real (Counter_get (UCOUNTS m) h)
                          * real (card {c'. 0 < Counter_get (BCOUNTS m) (h, c')})
                          * discounted_unigram dv (UCOUNTS m) (length (list_of_dlist (\<sigma>' r))) c)))
       \<and> (\<forall>h1 \<in> set (list_of_dlist (\<sigma>' r)). \<forall>h2 \<in> set (list_of_dlist (\<sigma>' r)).
            Counter_get (UCOUNTS m) h1 = 0 \<and> Counter_get (UCOUNTS m) h2 = 0 \<longrightarrow>
              (\<forall>c. P_getitem (P m) h1 c = P_getitem (P m) h2 c))
       \<and> UCOUNTS m = Counter (concat (map Ugrams corpus))
       \<and> BCOUNTS m = Counter (concat (map Bgrams corpus))
       \<and> d m = dv \<and> 0 < sum_list (map snd (UCOUNTS m))"
proof -
  let ?V = "list_of_dlist (\<sigma>' r)"
  let ?U = "Counter (concat (map Ugrams corpus))" and ?B = "Counter (concat (map Bgrams corpus))"
  have seen: "concat (map Ugrams corpus) \<noteq> []"
    using Absdisc_new_no_bigrams [of corpus \<sigma> r unk dv] assms by auto
  from Absdisc_new_result [OF seen, of \<sigma> r unk dv] assms
  have tables: "UCOUNTS m = ?U" "BCOUNTS m = ?B" "d m = dv"
    and get: "\<forall>h c. P_getitem (P m) h c =
        (if h \<in> set ?V \<and> c \<in> set ?V
         then Inr (absolute_discounting dv ?U ?B (length ?V) h c) else Inl KeyError)"
    by auto
  have regimes: "(Counter_get ?U h = 0 \<longrightarrow>
               P_getitem (P m) h c = Inr (discounted_unigram dv ?U (length ?V) c))
          \<and> (0 < Counter_get ?U h \<longrightarrow>
               P_getitem (P m) h c =
                 Inr (max (real (Counter_get ?B (h, c)) - dv) 0 / real (Counter_get ?U h)
                      + dv / real (Counter_get ?U h) * real (card {c'. 0 < Counter_get ?B (h, c')})
                          * discounted_unigram dv ?U (length ?V) c))"
    if "h \<in> set ?V" "c \<in> set ?V" for h c
    using that get by (simp add: absolute_discounting_def Let_def)
  have rows: "P_getitem (P m) h1 c = P_getitem (P m) h2 c"
    if "h1 \<in> set ?V" "h2 \<in> set ?V" "Counter_get ?U h1 = 0" "Counter_get ?U h2 = 0" for h1 h2 c
    using that get by (simp add: absolute_discounting_def Let_def)
  have mass: "0 < sum_list (map snd ?U)"
    using seen by simp
  from regimes rows mass show ?thesis
    unfolding tables by blast
qed

theorem absolute_discounting_formulas_witness:
  "\<exists>m. Absdisc_Phoneme_LM_new (store_of (Dlist [''a'', ''b''])) [[''a'', ''b'']] 0 False (1 / 2) =
          ((store_of (Dlist [''a'', ''b'']))(0 := Dlist.insert ''$'' (Dlist [''a'', ''b''])), Inr m)
     \<and> P_getitem (P m) ''$'' ''a'' = Inr (2 / 3) \<and> P_getitem (P m) ''$'' ''b'' = Inr (1 / 6)
     \<and> P_getitem (P m) ''b'' ''a'' = Inr (2 / 3) \<and> P_getitem (P m) ''b'' ''$'' = Inr (1 / 6)
     \<and> P_getitem (P m) ''a'' ''b'' = Inr (7 / 12) \<and> P_getitem (P m) ''a'' ''a'' = Inr (1 / 3)
     \<and> P_getitem (P m) ''a'' ''$'' = Inr (1 / 12)"
proof -
  let ?\<sigma> = "store_of (Dlist [''a'', ''b''])"
  let ?\<sigma>' = "?\<sigma>(0 := Dlist.insert ''$'' (Dlist [''a'', ''b'']))"
  let ?corpus = "[[''a'', ''b'']]"
  have "concat (map Ugrams ?corpus) \<noteq> []"
    by (simp only: example_Ugrams) simp
  from Absdisc_new_result [OF this, of ?\<sigma> 0 False "1 / 2"]
  obtain m where new: "Absdisc_Phoneme_LM_new ?\<sigma> ?corpus 0 False (1 / 2) = (?\<sigma>', Inr m)"
    by (auto simp: store_of_def)
  have pos1: "card {s. 0 < Counter_get (Counter [''a'']) s} = 1"
    by (simp only: Counter_get_Counter positive_counts_set) simp
  have pos2: "card {c'. 0 < Counter_get (Counter [(''a'', ''b'')]) (h, c')} = (if h = ''a'' then 1 else 0)" for h
  proof -
    have "{c'. 0 < Counter_get (Counter [(''a'', ''b'')]) (h, c')} = (if h = ''a'' then {''b''} else {})"
      by (auto simp: count_list_pos_iff)
    then show ?thesis by simp
  qed
  note facts = absolute_discounting_formulas [OF new]
  from facts have "UCOUNTS m = Counter (concat (map Ugrams ?corpus))"
    and "BCOUNTS m = Counter (concat (map Bgrams ?corpus))"
    by blast+
  then have tables: "UCOUNTS m = Counter [''a'']" "BCOUNTS m = Counter [(''a'', ''b'')]"
    by (simp_all only: example_Ugrams example_Bgrams)
  have V: "list_of_dlist (?\<sigma>' 0) = [''$'', ''a'', ''b'']"
    by simp
  note formula = facts [THEN conjunct1, unfolded tables V discounted_unigram_def Let_def pos1 pos2,
      rule_format]
  have "P_getitem (P m) ''$'' ''a'' = Inr (2 / 3)"
    using formula [of "''$''" "''a''"] by simp
  moreover have "P_getitem (P m) ''$'' ''b'' = Inr (1 / 6)"
    using formula [of "''$''" "''b''"] by simp
  moreover have "P_getitem (P m) ''b'' ''a'' = Inr (2 / 3)"
    using formula [of "''b''" "''a''"] by simp
  moreover have "P_getitem (P m) ''b'' ''$'' = Inr (1 / 6)"
    using formula [of "''b''" "''$''"] by simp
  moreover have "P_getitem (P m) ''a'' ''b'' = Inr (7 / 12)"
    using formula [of "''a''" "''b''"] by simp
  moreover have "P_getitem (P m) ''a'' ''a'' = Inr (1 / 3)"
    using formula [of "''a''" "''a''"] by simp
  moreover have "P_getitem (P m) ''a'' ''$'' = Inr (1 / 12)"
    using formula [of "''a''" "''$''"] by simp
  ultimately show ?thesis using new by blast
qed

text \<open>
  Claim C4, as amended. Constructing the absolute-discounting model from an empty corpus
  fails for every vocabulary, with \<^verbatim>\<open>ZeroDivisionError\<close>: nothing validates the input
  before estimation. The tables are built, \<^verbatim>\<open>'$'\<close> is added to the caller's set, and the
  exception is raised inside \<^verbatim>\<open>estimate_probs\<close> by the first division \<^verbatim>\<open>d/N\<close> of the
  first pair of symbols; no probability is stored and no model is returned.
\<close>

theorem absdisc_empty_corpus_raises_in_estimation:
  "Absdisc_Phoneme_LM_new \<sigma> [] r unk dv = (\<sigma>(r := Dlist.insert ''$'' (\<sigma> r)), Inl ZeroDivisionError)
   \<and> Absdisc_estimate_probs (\<sigma>(r := Dlist.insert ''$'' (\<sigma> r)))
       \<lparr>UCOUNTS = Counter [], BCOUNTS = Counter [], phoneme_set = r, P = [], d = dv\<rparr> =
     Inl ZeroDivisionError
   \<and> uniP dv (Counter []) L c = Inl ZeroDivisionError"
proof -
  have "Absdisc_estimate_probs (\<sigma>(r := Dlist.insert ''$'' (\<sigma> r)))
       \<lparr>UCOUNTS = Counter [], BCOUNTS = Counter [], phoneme_set = r, P = [], d = dv\<rparr> =
     Inl ZeroDivisionError"
    by (rule Absdisc_estimate_probs_zero_mass) simp_all
  moreover have "uniP dv (Counter []) L c = Inl ZeroDivisionError"
    by (rule uniP_Inl) simp
  moreover have "Absdisc_Phoneme_LM_new \<sigma> [] r unk dv =
      (\<sigma>(r := Dlist.insert ''$'' (\<sigma> r)), Inl ZeroDivisionError)"
    by (rule Absdisc_new_no_bigrams) simp
  ultimately show ?thesis by blast
qed

text \<open>
  Claim C4 as stated fails: with the vocabulary \<open>{a}\<close> and an empty corpus the exception
  that leaves the constructor is the \<^verbatim>\<open>ZeroDivisionError\<close> of the estimator, called on the
  object whose tables are built, after the caller's set has been extended; it is not a
  rejection that precedes estimation.
\<close>

theorem absdisc_empty_corpus_counterexample:
  "snd (Absdisc_Phoneme_LM_new (store_of (Dlist [''a''])) [] 0 True (1 / 2)) = Inl ZeroDivisionError
   \<and> Absdisc_estimate_probs ((store_of (Dlist [''a'']))(0 := Dlist.insert ''$'' (Dlist [''a''])))
       \<lparr>UCOUNTS = [], BCOUNTS = [], phoneme_set = 0, P = [], d = 1 / 2\<rparr> = Inl ZeroDivisionError
   \<and> list_of_dlist (fst (Absdisc_Phoneme_LM_new (store_of (Dlist [''a''])) [] 0 True (1 / 2)) 0) =
       [''$'', ''a'']"
  by (simp add: Absdisc_Phoneme_LM_new_def Phoneme_LM_init_def Absdisc_estimate_probs_def
      uniP_def py_div_def store_of_def Counter_def Counter_get_def contains_def)

lemma scenario_Bgrams:
  "Bgrams [''#'', ''a'', ''b'', ''@''] = [(''#'', ''a''), (''a'', ''b''), (''b'', ''@'')]"
  by (simp add: Bgrams_def upt_rec)

lemma scenario_Ugrams:
  "Ugrams [''#'', ''a'', ''b'', ''@''] = [''#'', ''a'', ''b'']"
  by (simp add: Ugrams_def upt_rec)

text \<open>
  Claim C6, as amended. For the vocabulary \<open>{a, b, #, @}\<close> and the training corpus
  \<open>[[#, a, b, @]]\<close>, the additive model built with \<open>unk = False\<close> gives
  \<open>P(b | a) = (1+1)/(1+4) = 0.4\<close> and \<open>P(a | a) = (0+1)/(1+4) = 0.2\<close>, and \<open>P(. | a)\<close> summed
  over \<open>{a, b, #, @}\<close> is 1.
\<close>

theorem additive_scenario_without_unknown:
  assumes "set (list_of_dlist (\<sigma> r)) = {''a'', ''b'', ''#'', ''@''}"
  shows "\<exists>m. Phoneme_LM_new \<sigma> [[''#'', ''a'', ''b'', ''@'']] r False = (\<sigma>, Inr m)
           \<and> P_getitem (P m) ''a'' ''b'' = Inr (2 / 5)
           \<and> P_getitem (P m) ''a'' ''a'' = Inr (1 / 5)
           \<and> P_sum_from (P m) ''a'' (list_of_dlist (\<sigma> r)) 0 = Inr 1"
proof -
  let ?V = "list_of_dlist (\<sigma> r)"
  let ?corpus = "[[''#'', ''a'', ''b'', ''@'']]"
  have "length ?V = card (set ?V)"
    by (simp add: distinct_card)
  then have L: "length ?V = 4"
    by (simp add: assms)
  from Phoneme_LM_new_result [of \<sigma> ?corpus r False]
  obtain m where new: "Phoneme_LM_new \<sigma> ?corpus r False = (\<sigma>, Inr m)"
    and get: "\<forall>h c. P_getitem (P m) h c =
        (if h \<in> set ?V \<and> c \<in> set ?V
         then Inr (add_one (Counter (concat (map Ugrams ?corpus))) (Counter (concat (map Bgrams ?corpus)))
                    (length ?V) h c)
         else Inl KeyError)"
    by auto
  have ab: "P_getitem (P m) ''a'' ''b'' = Inr (2 / 5)"
    using get by (simp add: assms L add_one_def scenario_Bgrams scenario_Ugrams)
  have aa: "P_getitem (P m) ''a'' ''a'' = Inr (1 / 5)"
    using get by (simp add: assms L add_one_def scenario_Bgrams scenario_Ugrams)
  have voc: "\<forall>w \<in> set ?corpus. set w \<subseteq> set ?V"
    by (auto simp: assms)
  have "''a'' \<in> set ?V"
    by (simp add: assms)
  with additive_normalised [OF new voc] have "P_sum_from (P m) ''a'' ?V 0 = Inr 1"
    by blast
  with new ab aa show ?thesis by blast
qed

theorem additive_scenario_without_unknown_witness:
  "\<exists>m. Phoneme_LM_new (store_of (Dlist [''a'', ''b'', ''#'', ''@''])) [[''#'', ''a'', ''b'', ''@'']] 0 False =
          (store_of (Dlist [''a'', ''b'', ''#'', ''@'']), Inr m)
       \<and> P_getitem (P m) ''a'' ''b'' = Inr (2 / 5)
       \<and> P_getitem (P m) ''a'' ''a'' = Inr (1 / 5)
       \<and> P_sum_from (P m) ''a'' [''a'', ''b'', ''#'', ''@''] 0 = Inr 1"
proof -
  have "set (list_of_dlist (store_of (Dlist [''a'', ''b'', ''#'', ''@'']) 0)) = {''a'', ''b'', ''#'', ''@''}"
    by (simp add: store_of_def)
  from additive_scenario_without_unknown
    [where \<sigma> = "store_of (Dlist [''a'', ''b'', ''#'', ''@''])" and r = 0, OF this]
  show ?thesis by (simp add: store_of_def)
qed

text \<open>
  Claim C6 as stated fails for the default \<open>unk = True\<close>: the vocabulary becomes
  \<open>{a, b, #, @, $}\<close>, so \<open>L = 5\<close>, \<open>P(b | a) = 2/6\<close>, \<open>P(a | a) = 1/6\<close>, and \<open>P(. | a)\<close>
  summed over \<open>{a, b, #, @}\<close> is \<open>5/6\<close>.
\<close>

theorem additive_scenario_default_counterexample:
  "\<exists>m. snd (Phoneme_LM_new (store_of (Dlist [''a'', ''b'', ''#'', ''@''])) [[''#'', ''a'', ''b'', ''@'']] 0 True) =
          Inr m
       \<and> P_getitem (P m) ''a'' ''b'' = Inr (1 / 3) \<and> P_getitem (P m) ''a'' ''b'' \<noteq> Inr (2 / 5)
       \<and> P_getitem (P m) ''a'' ''a'' = Inr (1 / 6) \<and> P_getitem (P m) ''a'' ''a'' \<noteq> Inr (1 / 5)
       \<and> P_sum_from (P m) ''a'' [''a'', ''b'', ''#'', ''@''] 0 = Inr (5 / 6)"
proof -
  let ?\<sigma> = "store_of (Dlist [''a'', ''b'', ''#'', ''@''])"
  let ?corpus = "[[''#'', ''a'', ''b'', ''@'']]"
  from Phoneme_LM_new_result [of ?\<sigma> ?corpus 0 True]
  obtain m where new: "snd (Phoneme_LM_new ?\<sigma> ?corpus 0 True) = Inr m"
    and get: "\<forall>h c. P_getitem (P m) h c =
        (if h \<in> set (list_of_dlist (Dlist.insert ''$'' (?\<sigma> 0))) \<and> c \<in> set (list_of_dlist (Dlist.insert ''$'' (?\<sigma> 0)))
         then Inr (add_one (Counter (concat (map Ugrams ?corpus))) (Counter (concat (map Bgrams ?corpus)))
                    (length (list_of_dlist (Dlist.insert ''$'' (?\<sigma> 0)))) h c)
         else Inl KeyError)"
    by auto
  have ab: "P_getitem (P m) ''a'' ''b'' = Inr (1 / 3)"
    using get by (simp add: store_of_def add_one_def scenario_Bgrams scenario_Ugrams)
  have aa: "P_getitem (P m) ''a'' ''a'' = Inr (1 / 6)"
    using get by (simp add: store_of_def add_one_def scenario_Bgrams scenario_Ugrams)
  have row: "\<forall>c \<in> set [''a'', ''b'', ''#'', ''@''].
      P_getitem (P m) ''a'' c = Inr (add_one (Counter [''#'', ''a'', ''b''])
        (Counter [(''#'', ''a''), (''a'', ''b''), (''b'', ''@'')]) 5 ''a'' c)"
    using get by (simp add: store_of_def add_one_def scenario_Bgrams scenario_Ugrams)
  have sum: "P_sum_from (P m) ''a'' [''a'', ''b'', ''#'', ''@''] 0 = Inr (5 / 6)"
    using P_sum_from_result [OF row, of 0] by (simp add: add_one_def)
  from new ab aa sum show ?thesis by auto
qed

end
